theory Spec2Isabelle
  imports Main "HOL-Library.Sublist"
begin

section \<open>Data model of the LSIF graph database\<close>

text \<open>
  The database (class \<open>JsonDatabase\<close>) ingests a stream of vertex and edge records and
  answers position queries against the maps it has built.  Vertices and edges are the
  records of the LSIF exchange format; their TypeScript interfaces come from the package
  \<open>@vscode/lsif-protocol\<close>.  A vertex is modelled by the fields the database reads:
  the four labels it inspects carry their fields, every other label carries its id only.
  Line and character numbers are the protocol's \<open>uinteger\<close>.  An id is a number
  (the protocol also allows a string; the database only uses ids as keys).
\<close>

type_synonym Id = nat

record Position =
  line :: nat
  character :: nat

datatype MonikerKind = kind_import | kind_export | kind_local

text \<open>
  The labels of \<open>VertexLabels\<close> other than \<open>metaData\<close>, \<open>document\<close>, \<open>range\<close> and
  \<open>moniker\<close>; \<open>unlisted\<close> stands for a label string outside the enumeration.
\<close>

datatype OtherLabel =
    event | source | capabilities | project | group | packageInformation | resultSet
  | documentSymbolResult | foldingRangeResult | documentLinkResult | diagnosticResult
  | definitionResult | declarationResult | typeDefinitionResult | hoverResult
  | referenceResult | implementationResult | unlisted string

text \<open>A document vertex: its id, its uri and its optional contents.\<close>

record DocumentRec =
  doc_id :: Id
  doc_uri :: string
  doc_contents :: "string option"

datatype Vertex =
    MetaData Id "string option"
  | Document DocumentRec
  | Range Id Position Position
  | Moniker Id string string "MonikerKind option" "string option"
  | Other Id OtherLabel

text \<open>
  \<open>MetaData i projectRoot\<close>; \<open>Range i start end\<close>;
  \<open>Moniker i scheme identifier kind key\<close>, where \<open>key\<close> is the field that ingestion
  adds to a non-local moniker (interface \<open>MonikerAndKey\<close>).  The casts of the source
  (\<open>to as Range\<close>, \<open>to as MonikerAndKey\<close>, \<open>document as Document\<close>) check nothing, so
  reading a field of a vertex that does not have it yields \<open>undefined\<close>: the accessors
  below return \<open>None\<close> there.
\<close>

fun vertex_id :: "Vertex \<Rightarrow> Id" where
  "vertex_id (MetaData i _) = i"
| "vertex_id (Document d) = doc_id d"
| "vertex_id (Range i _ _) = i"
| "vertex_id (Moniker i _ _ _ _) = i"
| "vertex_id (Other i _) = i"

fun is_range :: "Vertex \<Rightarrow> bool" where
  "is_range (Range _ _ _) = True"
| "is_range _ = False"

fun vertex_uri :: "Vertex \<Rightarrow> string option" where
  "vertex_uri (Document d) = Some (doc_uri d)"
| "vertex_uri _ = None"

fun range_start :: "Vertex \<Rightarrow> Position option" where
  "range_start (Range _ s _) = Some s"
| "range_start _ = None"

fun range_end :: "Vertex \<Rightarrow> Position option" where
  "range_end (Range _ _ e) = Some e"
| "range_end _ = None"

fun moniker_key :: "Vertex \<Rightarrow> string option" where
  "moniker_key (Moniker _ _ _ _ k) = k"
| "moniker_key _ = None"

fun moniker_kind :: "Vertex \<Rightarrow> MonikerKind option" where
  "moniker_kind (Moniker _ _ _ k _) = k"
| "moniker_kind _ = None"

fun moniker_identifier :: "Vertex \<Rightarrow> string option" where
  "moniker_identifier (Moniker _ _ i _ _) = Some i"
| "moniker_identifier _ = None"

datatype ItemEdgeProperties =
    p_declarations | p_definitions | p_references | p_referenceResults | p_referenceLinks

text \<open>
  \<open>ItemTarget\<close>: the bare target vertex of an \<open>item\<close> edge without property, or the
  wrapper \<open>{type: property, range: to}\<close> / \<open>{type: property, result: to}\<close>.
\<close>

datatype ItemTarget = Bare Vertex | Tagged ItemEdgeProperties Vertex

record DocumentBucket =
  bucket_hash :: string
  bucket_documents :: "DocumentRec list"

text \<open>
  The fields of the database, \<open>this.vertices.all\<close> as \<open>vertices_all\<close> and so on.
  A JavaScript \<open>Map\<close> is a partial function; the arrays it holds keep their order.
\<close>

record JsonDatabase =
  workspaceRoot :: "string option"
  vertices_all :: "Id \<rightharpoonup> Vertex"
  vertices_projects :: "Id \<rightharpoonup> Vertex"
  vertices_documents :: "Id \<rightharpoonup> Vertex"
  vertices_ranges :: "Id \<rightharpoonup> Vertex"
  out_contains :: "Id \<rightharpoonup> Vertex list"
  out_item :: "Id \<rightharpoonup> ItemTarget list"
  out_next :: "Id \<rightharpoonup> Vertex"
  out_moniker :: "Id \<rightharpoonup> Vertex"
  out_documentSymbol :: "Id \<rightharpoonup> Vertex"
  out_foldingRange :: "Id \<rightharpoonup> Vertex"
  out_documentLink :: "Id \<rightharpoonup> Vertex"
  out_diagnostic :: "Id \<rightharpoonup> Vertex"
  out_declaration :: "Id \<rightharpoonup> Vertex"
  out_definition :: "Id \<rightharpoonup> Vertex"
  out_typeDefinition :: "Id \<rightharpoonup> Vertex"
  out_hover :: "Id \<rightharpoonup> Vertex"
  out_references :: "Id \<rightharpoonup> Vertex"
  out_implementation :: "Id \<rightharpoonup> Vertex"
  in_contains :: "Id \<rightharpoonup> Vertex"
  in_moniker :: "Id \<rightharpoonup> Vertex list"
  indices_monikers :: "string \<rightharpoonup> Vertex list"
  indices_contents :: "string \<rightharpoonup> string"
  indices_documents :: "string \<rightharpoonup> DocumentBucket"

definition emptyDatabase :: JsonDatabase where
  "emptyDatabase = \<lparr> workspaceRoot = None,
     vertices_all = Map.empty, vertices_projects = Map.empty,
     vertices_documents = Map.empty, vertices_ranges = Map.empty,
     out_contains = Map.empty, out_item = Map.empty, out_next = Map.empty,
     out_moniker = Map.empty, out_documentSymbol = Map.empty,
     out_foldingRange = Map.empty, out_documentLink = Map.empty,
     out_diagnostic = Map.empty, out_declaration = Map.empty,
     out_definition = Map.empty, out_typeDefinition = Map.empty,
     out_hover = Map.empty, out_references = Map.empty,
     out_implementation = Map.empty,
     in_contains = Map.empty, in_moniker = Map.empty,
     indices_monikers = Map.empty, indices_contents = Map.empty,
     indices_documents = Map.empty \<rparr>"

subsection \<open>Path resolution\<close>

text \<open>
  \<open>ResultPath<T>\<close>: the trail of visited vertices, each with the moniker attached to it,
  and the result with the moniker of the vertex that carries it.
\<close>

record ResultPath =
  path :: "(Id \<times> Vertex option) list"
  result :: "(Vertex \<times> Vertex option) option"

text \<open>
  \<open>getResultPath\<close> is a \<open>do ... while (true)\<close> loop that follows \<open>next\<close> edges.  It has no
  bound, so the model is a partial function: \<open>None\<close> means that the loop never returns.
  \<open>getResultPathFrom\<close> is the loop with the trail built so far.
\<close>

partial_function (option) getResultPathFrom ::
  "JsonDatabase \<Rightarrow> (Id \<rightharpoonup> Vertex) \<Rightarrow> Id \<Rightarrow> (Id \<times> Vertex option) list \<Rightarrow> ResultPath option"
where
  "getResultPathFrom db edges currentId trail =
     (case edges currentId of
        Some v \<Rightarrow> Some \<lparr> path = trail, result = Some (v, out_moniker db currentId) \<rparr>
      | None \<Rightarrow>
          (case out_next db currentId of
             None \<Rightarrow> Some \<lparr> path = trail @ [(currentId, out_moniker db currentId)],
                             result = None \<rparr>
           | Some nxt \<Rightarrow>
               getResultPathFrom db edges (vertex_id nxt)
                 (trail @ [(currentId, out_moniker db currentId)])))"

definition getResultPath :: "JsonDatabase \<Rightarrow> Id \<Rightarrow> (Id \<rightharpoonup> Vertex) \<Rightarrow> ResultPath option" where
  "getResultPath db start edges = getResultPathFrom db edges start []"

text \<open>
  \<open>getMostSpecificMoniker\<close>: the result's moniker if there is one, else the trail scanned
  from index \<open>length - 1\<close> down to \<open>0\<close>.  \<open>scanTrail p n\<close> is the \<open>for\<close> loop with
  \<open>i = n - 1\<close>.
\<close>

fun scanTrail :: "(Id \<times> Vertex option) list \<Rightarrow> nat \<Rightarrow> Vertex option" where
  "scanTrail p 0 = None"
| "scanTrail p (Suc i) =
     (case snd (p ! i) of Some m \<Rightarrow> Some m | None \<Rightarrow> scanTrail p i)"

definition getMostSpecificMoniker :: "ResultPath \<Rightarrow> Vertex option" where
  "getMostSpecificMoniker r =
     (case result r of
        Some (_, Some m) \<Rightarrow> Some m
      | _ \<Rightarrow> scanTrail (path r) (length (path r)))"

subsection \<open>Position resolution\<close>

definition containsPosition :: "Position \<Rightarrow> Position \<Rightarrow> Position \<Rightarrow> bool" where
  "containsPosition rs re p =
     (if line p < line rs \<or> line p > line re then False
      else if line p = line rs \<and> character p < character rs then False
      else if line p = line re \<and> character p > character re then False
      else True)"

definition containsRange :: "Position \<Rightarrow> Position \<Rightarrow> Position \<Rightarrow> Position \<Rightarrow> bool" where
  "containsRange rs re os oe =
     (if line os < line rs \<or> line oe < line rs then False
      else if line os > line re \<or> line oe > line re then False
      else if line os = line rs \<and> character os < character rs then False
      else if line oe = line re \<and> character oe > character re then False
      else True)"

text \<open>
  The inner loop of \<open>findRangesFromPosition\<close> over one document's \<open>contains\<close> list, with
  the candidate chosen so far.  Only vertices labelled \<open>range\<close> are looked at.
\<close>

fun selectCandidate :: "Position \<Rightarrow> Vertex list \<Rightarrow> Vertex option \<Rightarrow> Vertex option" where
  "selectCandidate p [] candidate = candidate"
| "selectCandidate p (Range i s e # items) None =
     selectCandidate p items (if containsPosition s e p then Some (Range i s e) else None)"
| "selectCandidate p (Range i s e # items) (Some (Range ci cs ce)) =
     selectCandidate p items
       (if containsPosition s e p \<and> containsRange cs ce s e then Some (Range i s e)
        else Some (Range ci cs ce))"
| "selectCandidate p (_ # items) candidate = selectCandidate p items candidate"

text \<open>
  The loop of \<open>findRangesFromPosition\<close> over the document instances of one URI, with the
  result array built so far; \<open>None\<close> is the \<open>return undefined\<close> inside the loop.
\<close>

fun rangesOfDocuments ::
  "JsonDatabase \<Rightarrow> Position \<Rightarrow> DocumentRec list \<Rightarrow> Vertex list \<Rightarrow> Vertex list option"
where
  "rangesOfDocuments db p [] res = Some res"
| "rangesOfDocuments db p (document # documents) res =
     (case out_contains db (doc_id document) of
        None \<Rightarrow> None
      | Some contains \<Rightarrow>
          if length contains = 0 then None
          else rangesOfDocuments db p documents
                 (case selectCandidate p contains None of
                    None \<Rightarrow> res
                  | Some candidate \<Rightarrow> res @ [candidate]))"

definition findRangesFromPosition ::
  "JsonDatabase \<Rightarrow> string \<Rightarrow> Position \<Rightarrow> Vertex list option"
where
  "findRangesFromPosition db file p =
     (case indices_documents db file of
        None \<Rightarrow> None
      | Some v \<Rightarrow>
          (case rangesOfDocuments db p (bucket_documents v) [] of
             None \<Rightarrow> None
           | Some res \<Rightarrow> if length res > 0 then Some res else None))"

section \<open>Queries\<close>

text \<open>
  Library functions the database calls, taken as parameters: \<open>normalizeUri\<close> is
  \<open>URI.parse(uri).toString(true)\<close> of \<open>vscode-uri\<close> (\<open>toDatabase\<close> and \<open>fromDatabase\<close>
  are both this function), applied also to an absent uri; \<open>URI.parse\<close> throws on a
  string it does not accept as a URI, which is the value \<open>None\<close>.  \<open>locationDigest\<close> is
  the MD5 digest of the JSON text of \<open>{d, sl, sc, el, ec}\<close> in \<open>Locations.makeKey\<close>;
  \<open>monikerDigest\<close> that of \<open>{s, i}\<close>; \<open>contentDigest\<close> that of a document's contents.
  Nothing is assumed about them.
\<close>

record Ext =
  normalizeUri :: "string option \<Rightarrow> string option"
  locationDigest :: "string option \<Rightarrow> nat \<Rightarrow> nat \<Rightarrow> nat \<Rightarrow> nat \<Rightarrow> string"
  monikerDigest :: "string \<Rightarrow> string \<Rightarrow> string"
  contentDigest :: "string \<Rightarrow> string"

record LRange =
  lstart :: Position
  lend :: Position

record Location =
  uri :: "string option"
  lrange :: LRange

definition makeKey :: "Ext \<Rightarrow> Location \<Rightarrow> string" where
  "makeKey E location =
     locationDigest E (uri location)
       (line (lstart (lrange location))) (character (lstart (lrange location)))
       (line (lend (lrange location))) (character (lend (lrange location)))"

datatype Error =
    UnexpectedElementType | UnexpectedVertexLabel | MultipleWorkspaceRoots
  | InvariantFailed | TypeError | UriError

text \<open>
  A computation either does not return (\<open>None\<close>), throws (\<open>Some (Inl e)\<close>) or returns a
  value (\<open>Some (Inr x)\<close>).
\<close>

type_synonym 'a res = "(Error + 'a) option"

definition rbind :: "'a res \<Rightarrow> ('a \<Rightarrow> 'b res) \<Rightarrow> 'b res" where
  "rbind m f = Option.bind m (\<lambda>r. case r of Inl e \<Rightarrow> Some (Inl e) | Inr x \<Rightarrow> f x)"

fun forEach :: "('a \<Rightarrow> 's \<Rightarrow> 's res) \<Rightarrow> 'a list \<Rightarrow> 's \<Rightarrow> 's res" where
  "forEach body [] st = Some (Inr st)"
| "forEach body (x # xs) st = rbind (body x st) (forEach body xs)"

text \<open>
  The accumulators of one top-level query: the result array and the two dedup sets.
  \<open>expansions\<close> is a ghost field that nothing reads: it logs the key of every lookup
  \<open>this.indices.monikers.get(moniker.key)\<close>, in order.  A local moniker has no key, hence
  the option.
\<close>

record QueryState =
  results :: "Location list"
  dedupLocations :: "string set"
  dedupMonikers :: "string option set"
  expansions :: "string option list"

definition initialQuery :: QueryState where
  "initialQuery = \<lparr> results = [], dedupLocations = {}, dedupMonikers = {}, expansions = [] \<rparr>"

fun asRange :: "Vertex \<Rightarrow> LRange option" where
  "asRange (Range _ s e) =
     Some \<lparr> lstart = \<lparr> line = line s, character = character s \<rparr>,
            lend = \<lparr> line = line e, character = character e \<rparr> \<rparr>"
| "asRange _ = None"

text \<open>
  \<open>addLocation\<close>.  \<open>types.Location.is\<close> (of \<open>vscode-languageserver-types\<close>) holds of an
  object whose \<open>range\<close> field is a range and whose \<open>uri\<close> is a string or absent: of no
  vertex, and of the wrappers \<open>{type, range: to}\<close> around a range vertex, which are then
  pushed as they are, without uri.  On every other value the else branch runs; it throws
  a \<open>TypeError\<close> when the value has no owning document (\<open>document.uri\<close> of
  \<open>undefined\<close>; a wrapper has no \<open>id\<close>) or is no range (\<open>value.start.line\<close>), and
  the error of \<open>URI.parse\<close> when \<open>fromDatabase\<close> refuses the uri of the document.
\<close>

definition toLocation :: "Ext \<Rightarrow> JsonDatabase \<Rightarrow> ItemTarget \<Rightarrow> Error + Location" where
  "toLocation E db v =
     (case v of
        Bare r \<Rightarrow>
          (case in_contains db (vertex_id r) of
             None \<Rightarrow> Inl TypeError
           | Some document \<Rightarrow>
               (case normalizeUri E (vertex_uri document) of
                  None \<Rightarrow> Inl UriError
                | Some u \<Rightarrow>
                    (case asRange r of
                       None \<Rightarrow> Inl TypeError
                     | Some rng \<Rightarrow> Inr \<lparr> uri = Some u, lrange = rng \<rparr>)))
      | Tagged t r \<Rightarrow>
          (if t = p_referenceResults \<or> t = p_referenceLinks then Inl TypeError
           else (case r of
                   Range i s e \<Rightarrow> Inr \<lparr> uri = None, lrange = \<lparr> lstart = s, lend = e \<rparr> \<rparr>
                 | _ \<Rightarrow> Inl TypeError)))"

definition addLocation :: "Ext \<Rightarrow> JsonDatabase \<Rightarrow> ItemTarget \<Rightarrow> QueryState \<Rightarrow> Error + QueryState" where
  "addLocation E db v st =
     (case toLocation E db v of
        Inl e \<Rightarrow> Inl e
      | Inr location \<Rightarrow>
          (let key = makeKey E location in
           if key \<notin> dedupLocations st
           then Inr (st \<lparr> dedupLocations := insert key (dedupLocations st),
                          results := results st @ [location] \<rparr>)
           else Inr st))"

text \<open>\<open>item\<close>: the \<open>item\<close> targets of a declaration, definition or reference result.\<close>

fun item :: "JsonDatabase \<Rightarrow> Vertex \<Rightarrow> ItemTarget list option" where
  "item db (Other i declarationResult) = out_item db i"
| "item db (Other i definitionResult) = out_item db i"
| "item db (Other i referenceResult) = out_item db i"
| "item db _ = None"

definition findVerticesForMoniker :: "JsonDatabase \<Rightarrow> Vertex \<Rightarrow> Vertex list option" where
  "findVerticesForMoniker db moniker = in_moniker db (vertex_id moniker)"

text \<open>\<open>indices.monikers.get(moniker.key)\<close>; the keys of that map are strings.\<close>

definition matchingMonikersOf :: "JsonDatabase \<Rightarrow> Vertex \<Rightarrow> Vertex list option" where
  "matchingMonikersOf db moniker =
     (case moniker_key moniker of None \<Rightarrow> None | Some k \<Rightarrow> indices_monikers db k)"

subsection \<open>declarations and definitions\<close>

definition resolveTargets :: "Ext \<Rightarrow> JsonDatabase \<Rightarrow> Vertex \<Rightarrow> QueryState \<Rightarrow> QueryState res" where
  "resolveTargets E db targetResult st =
     (case item db targetResult of
        None \<Rightarrow> Some (Inr st)
      | Some ranges \<Rightarrow> forEach (\<lambda>element s. Some (addLocation E db element s)) ranges st)"

text \<open>The body of the loop over the vertices attached to a matching moniker.\<close>

definition resolveVertexTargets ::
  "Ext \<Rightarrow> JsonDatabase \<Rightarrow> (Id \<rightharpoonup> Vertex) \<Rightarrow> Vertex \<Rightarrow> QueryState \<Rightarrow> QueryState res"
where
  "resolveVertexTargets E db edges vertex st =
     Option.bind (getResultPath db (vertex_id vertex) edges)
       (\<lambda>resultPath. case result resultPath of
           None \<Rightarrow> Some (Inr st)
         | Some (v, _) \<Rightarrow> resolveTargets E db v st)"

definition expandTargets ::
  "Ext \<Rightarrow> JsonDatabase \<Rightarrow> (Id \<rightharpoonup> Vertex) \<Rightarrow> Vertex \<Rightarrow> QueryState \<Rightarrow> QueryState res"
where
  "expandTargets E db edges moniker st =
     (case matchingMonikersOf db moniker of
        None \<Rightarrow> Some (Inr st)
      | Some matchingMonikers \<Rightarrow>
          forEach (\<lambda>matchingMoniker s.
              case findVerticesForMoniker db matchingMoniker of
                None \<Rightarrow> Some (Inr s)
              | Some vertices \<Rightarrow> forEach (resolveVertexTargets E db edges) vertices s)
            matchingMonikers st)"

text \<open>The loop \<open>for (const moniker of monikers)\<close> of \<open>_findTargets\<close>.\<close>

definition targetsOfMoniker ::
  "Ext \<Rightarrow> JsonDatabase \<Rightarrow> (Id \<rightharpoonup> Vertex) \<Rightarrow> Vertex \<Rightarrow> QueryState \<Rightarrow> QueryState res"
where
  "targetsOfMoniker E db edges moniker st =
     (if moniker_key moniker \<in> dedupMonikers st then Some (Inr st)
      else expandTargets E db edges moniker
             (st \<lparr> dedupMonikers := insert (moniker_key moniker) (dedupMonikers st),
                   expansions := expansions st @ [moniker_key moniker] \<rparr>))"

definition findTargetsOfRange ::
  "Ext \<Rightarrow> JsonDatabase \<Rightarrow> (Id \<rightharpoonup> Vertex) \<Rightarrow> Vertex \<Rightarrow> QueryState \<Rightarrow> QueryState res"
where
  "findTargetsOfRange E db edges rng st =
     Option.bind (getResultPath db (vertex_id rng) edges)
       (\<lambda>resultPath. case result resultPath of
           None \<Rightarrow> Some (Inr st)
         | Some (v, _) \<Rightarrow>
             (let monikers = (case getMostSpecificMoniker resultPath of
                                Some m \<Rightarrow> [m] | None \<Rightarrow> [])
              in rbind (resolveTargets E db v st)
                   (forEach (targetsOfMoniker E db edges) monikers)))"

text \<open>
  The declared return type \<open>types.Location | types.Location[] | undefined\<close>; \<open>undefined\<close>
  is \<open>None\<close>.
\<close>

datatype Targets = Single Location | Many "Location list"

text \<open>
  \<open>findTargetsState\<close> is \<open>findTargets\<close> up to its last line, with the accumulators of
  the query in place of the result array; \<open>findTargets\<close> returns the array.
\<close>

definition findTargetsState ::
  "Ext \<Rightarrow> JsonDatabase \<Rightarrow> string \<Rightarrow> Position \<Rightarrow> (Id \<rightharpoonup> Vertex) \<Rightarrow> QueryState option res"
where
  "findTargetsState E db u position edges =
     (case normalizeUri E (Some u) of
        None \<Rightarrow> Some (Inl UriError)
      | Some file \<Rightarrow>
          (case findRangesFromPosition db file position of
             None \<Rightarrow> Some (Inr None)
           | Some ranges \<Rightarrow>
               rbind (forEach (findTargetsOfRange E db edges) ranges initialQuery)
                 (\<lambda>st. Some (Inr (Some st)))))"

definition findTargets ::
  "Ext \<Rightarrow> JsonDatabase \<Rightarrow> string \<Rightarrow> Position \<Rightarrow> (Id \<rightharpoonup> Vertex) \<Rightarrow> Targets option res"
where
  "findTargets E db u position edges =
     rbind (findTargetsState E db u position edges)
       (\<lambda>st. Some (Inr (map_option (\<lambda>s. Many (results s)) st)))"

definition declarations :: "Ext \<Rightarrow> JsonDatabase \<Rightarrow> string \<Rightarrow> Position \<Rightarrow> Targets option res" where
  "declarations E db u position = findTargets E db u position (out_declaration db)"

definition definitions :: "Ext \<Rightarrow> JsonDatabase \<Rightarrow> string \<Rightarrow> Position \<Rightarrow> Targets option res" where
  "definitions E db u position = findTargets E db u position (out_definition db)"

subsection \<open>references\<close>

lemma rbind_mono [partial_function_mono]:
  assumes "mono_option B" and "\<And>y. mono_option (\<lambda>f. C y f)"
  shows "mono_option (\<lambda>f. rbind (B f) (\<lambda>y. C y f))"
  unfolding rbind_def
proof (rule bind_mono [OF assms(1)])
  fix r :: "Error + 'c"
  show "mono_option (\<lambda>f. case r of Inl e \<Rightarrow> Some (Inl e) | Inr x \<Rightarrow> C x f)"
    by (cases r) (simp_all add: assms(2) option.const_mono)
qed

text \<open>
  \<open>resolveReferenceResult\<close> pushes onto the caller's \<open>monikers\<close> array, so the array is
  passed in and returned.  \<open>resolveReferenceTargets\<close> is its loop over the targets; the
  recursive call for a nested reference result sits inside that loop.  An \<open>item\<close> cycle
  among reference results recurses without end, which is \<open>None\<close> here.
\<close>

partial_function (option) resolveReferenceTargets ::
  "Ext \<Rightarrow> JsonDatabase \<Rightarrow> bool \<Rightarrow> ItemTarget list \<Rightarrow> QueryState \<Rightarrow> Vertex list
     \<Rightarrow> (QueryState \<times> Vertex list) res"
where
  "resolveReferenceTargets E db includeDeclaration targets st monikers =
     (case targets of
        [] \<Rightarrow> Some (Inr (st, monikers))
      | target # rest \<Rightarrow>
          rbind
            (case target of
               Tagged t r \<Rightarrow>
                 (if t = p_declarations \<and> includeDeclaration
                  then Some (map_sum id (\<lambda>s. (s, monikers)) (addLocation E db (Bare r) st))
                  else if t = p_definitions \<and> includeDeclaration
                  then Some (map_sum id (\<lambda>s. (s, monikers)) (addLocation E db (Bare r) st))
                  else if t = p_references
                  then Some (map_sum id (\<lambda>s. (s, monikers)) (addLocation E db (Bare r) st))
                  else if t = p_referenceResults
                  then (case item db r of
                          None \<Rightarrow> Some (Inr (st, monikers))
                        | Some ts \<Rightarrow>
                            resolveReferenceTargets E db includeDeclaration ts st monikers)
                  else if t = p_referenceLinks
                  then Some (Inr (st, monikers @ [r]))
                  else Some (Inr (st, monikers)))
             | Bare r \<Rightarrow>
                 (if is_range r
                  then Some (map_sum id (\<lambda>s. (s, monikers)) (addLocation E db (Bare r) st))
                  else Some (Inr (st, monikers))))
            (\<lambda>sm. resolveReferenceTargets E db includeDeclaration rest (fst sm) (snd sm)))"

definition resolveReferenceResult ::
  "Ext \<Rightarrow> JsonDatabase \<Rightarrow> bool \<Rightarrow> Vertex \<Rightarrow> QueryState \<times> Vertex list
     \<Rightarrow> (QueryState \<times> Vertex list) res"
where
  "resolveReferenceResult E db includeDeclaration refResult sm =
     (case item db refResult of
        None \<Rightarrow> Some (Inr sm)
      | Some targets \<Rightarrow>
          resolveReferenceTargets E db includeDeclaration targets (fst sm) (snd sm))"

definition resolveVertexReferences ::
  "Ext \<Rightarrow> JsonDatabase \<Rightarrow> bool \<Rightarrow> Vertex \<Rightarrow> QueryState \<times> Vertex list
     \<Rightarrow> (QueryState \<times> Vertex list) res"
where
  "resolveVertexReferences E db includeDeclaration vertex sm =
     Option.bind (getResultPath db (vertex_id vertex) (out_references db))
       (\<lambda>resultPath. case result resultPath of
           None \<Rightarrow> Some (Inr sm)
         | Some (v, _) \<Rightarrow> resolveReferenceResult E db includeDeclaration v sm)"

definition expandReferences ::
  "Ext \<Rightarrow> JsonDatabase \<Rightarrow> bool \<Rightarrow> Vertex \<Rightarrow> QueryState \<times> Vertex list
     \<Rightarrow> (QueryState \<times> Vertex list) res"
where
  "expandReferences E db includeDeclaration moniker sm =
     (case matchingMonikersOf db moniker of
        None \<Rightarrow> Some (Inr sm)
      | Some matchingMonikers \<Rightarrow>
          forEach (\<lambda>matchingMoniker s.
              case findVerticesForMoniker db matchingMoniker of
                None \<Rightarrow> Some (Inr s)
              | Some vertices \<Rightarrow>
                  forEach (resolveVertexReferences E db includeDeclaration) vertices s)
            matchingMonikers sm)"

text \<open>
  The loop \<open>for (const moniker of monikers)\<close> of \<open>findReferences\<close>.  The array grows while
  it is iterated (reference links push onto it), and the iterator of a JavaScript array
  reads the length at every step: \<open>i\<close> is the iterator's index.
\<close>

partial_function (option) referencesOfMonikers ::
  "Ext \<Rightarrow> JsonDatabase \<Rightarrow> bool \<Rightarrow> nat \<Rightarrow> QueryState \<Rightarrow> Vertex list
     \<Rightarrow> (QueryState \<times> Vertex list) res"
where
  "referencesOfMonikers E db includeDeclaration i st monikers =
     (if i < length monikers
      then (if moniker_key (monikers ! i) \<in> dedupMonikers st
            then referencesOfMonikers E db includeDeclaration (Suc i) st monikers
            else rbind
                   (expandReferences E db includeDeclaration (monikers ! i)
                      (st \<lparr> dedupMonikers :=
                               insert (moniker_key (monikers ! i)) (dedupMonikers st),
                             expansions := expansions st @ [moniker_key (monikers ! i)] \<rparr>,
                       monikers))
                   (\<lambda>sm. referencesOfMonikers E db includeDeclaration (Suc i) (fst sm) (snd sm)))
      else Some (Inr (st, monikers)))"

definition findReferences ::
  "Ext \<Rightarrow> JsonDatabase \<Rightarrow> bool \<Rightarrow> Vertex \<Rightarrow> QueryState \<Rightarrow> QueryState res"
where
  "findReferences E db includeDeclaration rng st =
     Option.bind (getResultPath db (vertex_id rng) (out_references db))
       (\<lambda>resultPath. case result resultPath of
           None \<Rightarrow> Some (Inr st)
         | Some (v, _) \<Rightarrow>
             (let monikers = (case getMostSpecificMoniker resultPath of
                                Some m \<Rightarrow> [m] | None \<Rightarrow> [])
              in rbind (resolveReferenceResult E db includeDeclaration v (st, monikers))
                   (\<lambda>sm. rbind
                      (referencesOfMonikers E db includeDeclaration 0 (fst sm) (snd sm))
                      (\<lambda>sm'. Some (Inr (fst sm'))))))"

text \<open>\<open>references\<close>, likewise: first the accumulators, then the array they hold.\<close>

definition referencesState ::
  "Ext \<Rightarrow> JsonDatabase \<Rightarrow> string \<Rightarrow> Position \<Rightarrow> bool \<Rightarrow> QueryState option res"
where
  "referencesState E db u position includeDeclaration =
     (case normalizeUri E (Some u) of
        None \<Rightarrow> Some (Inl UriError)
      | Some file \<Rightarrow>
          (case findRangesFromPosition db file position of
             None \<Rightarrow> Some (Inr None)
           | Some ranges \<Rightarrow>
               rbind (forEach (findReferences E db includeDeclaration) ranges initialQuery)
                 (\<lambda>st. Some (Inr (Some st)))))"

definition references ::
  "Ext \<Rightarrow> JsonDatabase \<Rightarrow> string \<Rightarrow> Position \<Rightarrow> bool \<Rightarrow> Location list option res"
where
  "references E db u position includeDeclaration =
     rbind (referencesState E db u position includeDeclaration)
       (\<lambda>st. Some (Inr (map_option results st)))"

subsection \<open>allDefinitions\<close>

definition endsWith :: "string \<Rightarrow> string \<Rightarrow> bool" where
  "endsWith s t = suffix t s"

definition includes_str :: "string \<Rightarrow> string \<Rightarrow> bool" where
  "includes_str s t = sublist t s"

text \<open>
  The filters of \<open>allDefinitions\<close> on the most specific moniker of a range: \<open>Some True\<close>
  when the range is kept, \<open>Some False\<close> on a \<open>continue\<close>, \<open>None\<close> when
  \<open>moniker.identifier\<close> is read off a value that has none.
\<close>

definition keepsMoniker :: "Vertex option \<Rightarrow> bool option" where
  "keepsMoniker moniker =
     (case moniker of
        None \<Rightarrow> Some False
      | Some m \<Rightarrow>
          if moniker_kind m \<noteq> Some kind_export then Some False
          else (case moniker_identifier m of
                  None \<Rightarrow> None
                | Some ident \<Rightarrow>
                    if \<not> endsWith ident ''.'' then Some False
                    else if includes_str ident ''`<constructor>`''
                          \<or> includes_str ident ''#getDerivedStateFromProps()''
                          \<or> includes_str ident ''#propTypes''
                    then Some False
                    else Some True))"

text \<open>The loop over the \<open>contains\<close> list of one document instance.\<close>

fun definitionsOfItems ::
  "Ext \<Rightarrow> JsonDatabase \<Rightarrow> DocumentRec \<Rightarrow> Vertex list \<Rightarrow> Location list \<Rightarrow> Location list res"
where
  "definitionsOfItems E db document [] res = Some (Inr res)"
| "definitionsOfItems E db document (Range i s e # items) res =
     Option.bind (getResultPath db i (out_definition db))
       (\<lambda>resultPath.
          case keepsMoniker (getMostSpecificMoniker resultPath) of
            None \<Rightarrow> Some (Inl TypeError)
          | Some False \<Rightarrow> definitionsOfItems E db document items res
          | Some True \<Rightarrow>
              rbind (definitions E db (doc_uri document) s)
                (\<lambda>ds. case ds of
                   Some (Many ls) \<Rightarrow> definitionsOfItems E db document items (res @ ls)
                 | Some (Single l) \<Rightarrow> definitionsOfItems E db document items (res @ [l])
                 | None \<Rightarrow> definitionsOfItems E db document items res))"
| "definitionsOfItems E db document (_ # items) res =
     definitionsOfItems E db document items res"

text \<open>
  The loop over the document instances; the inner \<open>None\<close> is the \<open>return undefined\<close> for
  an instance without \<open>contains\<close> list.
\<close>

fun definitionsOfDocuments ::
  "Ext \<Rightarrow> JsonDatabase \<Rightarrow> DocumentRec list \<Rightarrow> Location list \<Rightarrow> Location list option res"
where
  "definitionsOfDocuments E db [] res = Some (Inr (Some res))"
| "definitionsOfDocuments E db (document # documents) res =
     (case out_contains db (doc_id document) of
        None \<Rightarrow> Some (Inr None)
      | Some contains \<Rightarrow>
          if length contains = 0 then Some (Inr None)
          else rbind (definitionsOfItems E db document contains res)
                 (definitionsOfDocuments E db documents))"

definition allDefinitions :: "Ext \<Rightarrow> JsonDatabase \<Rightarrow> string \<Rightarrow> Location list option res" where
  "allDefinitions E db u =
     (case normalizeUri E (Some u) of
        None \<Rightarrow> Some (Inl UriError)
      | Some url \<Rightarrow>
          (case indices_documents db url of
             None \<Rightarrow> Some (Inr None)
           | Some v \<Rightarrow>
               rbind (definitionsOfDocuments E db (bucket_documents v) [])
                 (\<lambda>r. case r of
                    None \<Rightarrow> Some (Inr None)
                  | Some res \<Rightarrow>
                      Some (Inr (if length res > 0
                                 then Some (filter (\<lambda>l. uri l = Some url) res)
                                 else None)))))"

section \<open>Ingestion\<close>

text \<open>
  \<open>EdgeLabels\<close> of the protocol; \<open>e_unlisted\<close> stands for any other label string.
\<close>

datatype EdgeLabels =
    e_contains | e_item | e_next | e_moniker | e_attach | e_packageInformation
  | e_belongsTo
  | e_textDocument_documentSymbol | e_textDocument_foldingRange
  | e_textDocument_documentLink | e_textDocument_diagnostic
  | e_textDocument_definition | e_textDocument_declaration
  | e_textDocument_typeDefinition | e_textDocument_hover
  | e_textDocument_references | e_textDocument_implementation
  | e_unlisted string

text \<open>The \<open>property\<close> field of an edge record: absent, one of the enumeration, or other.\<close>

datatype EdgeProperty = NoProperty | Property ItemEdgeProperties | UnknownProperty string

record Edge =
  edge_label :: EdgeLabels
  outV :: Id
  inV :: "Id option"
  inVs :: "Id list option"
  property :: EdgeProperty

datatype Element = VertexElement Vertex | EdgeElement Edge | OtherElement

definition truthy :: "string option \<Rightarrow> bool" where
  "truthy v = (case v of None \<Rightarrow> False | Some s \<Rightarrow> s \<noteq> [])"

definition processMetaData :: "JsonDatabase \<Rightarrow> string option \<Rightarrow> Error + JsonDatabase" where
  "processMetaData db projectRoot =
     (if truthy (workspaceRoot db) \<and> projectRoot \<noteq> None \<and> projectRoot \<noteq> workspaceRoot db
      then Inl MultipleWorkspaceRoots
      else if projectRoot \<noteq> None \<and> truthy projectRoot
      then Inr (db \<lparr> workspaceRoot := projectRoot \<rparr>)
      else Inr db)"

text \<open>
  \<open>doProcessDocument\<close>, on the document whose uri is already normalised.  The mismatch of
  content hashes is only reported on the console.
\<close>

definition doProcessDocument :: "Ext \<Rightarrow> JsonDatabase \<Rightarrow> DocumentRec \<Rightarrow> JsonDatabase" where
  "doProcessDocument E db document =
     (let contents = (case doc_contents document of
                        Some c \<Rightarrow> c | None \<Rightarrow> ''No content provided.'');
          h = contentDigest E contents;
          v = (case indices_documents db (doc_uri document) of
                 None \<Rightarrow> \<lparr> bucket_hash = h, bucket_documents = [] \<rparr>
               | Some b \<Rightarrow> b)
      in db \<lparr> vertices_documents := (vertices_documents db)(doc_id document \<mapsto> Document document),
              indices_contents := (indices_contents db)(h \<mapsto> contents),
              indices_documents := (indices_documents db)
                (doc_uri document \<mapsto> v \<lparr> bucket_documents := bucket_documents v @ [document] \<rparr>) \<rparr>)"

text \<open>
  \<open>processVertex\<close>.  The source stores the element in \<open>vertices.all\<close> first and then
  writes the normalised uri, or the key, into that same object; here the element is
  rewritten first and stored afterwards.  \<open>URI.parse\<close> in \<open>doProcessDocument\<close> can
  throw; the load then ends with that error.
\<close>

fun processVertex :: "Ext \<Rightarrow> JsonDatabase \<Rightarrow> Vertex \<Rightarrow> Error + JsonDatabase" where
  "processVertex E db (MetaData i projectRoot) =
     processMetaData (db \<lparr> vertices_all := (vertices_all db)(i \<mapsto> MetaData i projectRoot) \<rparr>)
       projectRoot"
| "processVertex E db (Document d) =
     (case normalizeUri E (Some (doc_uri d)) of
        None \<Rightarrow> Inl UriError
      | Some u \<Rightarrow>
          (let document = d \<lparr> doc_uri := u \<rparr>
           in Inr (doProcessDocument E
                     (db \<lparr> vertices_all := (vertices_all db)(doc_id d \<mapsto> Document document) \<rparr>)
                     document)))"
| "processVertex E db (Range i s e) =
     Inr (db \<lparr> vertices_all := (vertices_all db)(i \<mapsto> Range i s e),
               vertices_ranges := (vertices_ranges db)(i \<mapsto> Range i s e) \<rparr>)"
| "processVertex E db (Moniker i scheme ident kind k) =
     (if kind \<noteq> Some kind_local
      then (let key = monikerDigest E scheme ident;
                element = Moniker i scheme ident kind (Some key);
                vs = (case indices_monikers db key of None \<Rightarrow> [] | Some l \<Rightarrow> l)
            in Inr (db \<lparr> vertices_all := (vertices_all db)(i \<mapsto> element),
                         indices_monikers := (indices_monikers db)(key \<mapsto> vs @ [element]) \<rparr>))
      else Inr (db \<lparr> vertices_all := (vertices_all db)(i \<mapsto> Moniker i scheme ident kind k) \<rparr>))"
| "processVertex E db (Other i l) =
     (if l = packageInformation \<or> l = definitionResult \<or> l = implementationResult
         \<or> l = resultSet \<or> l = referenceResult \<or> l = hoverResult
      then Inr (db \<lparr> vertices_all := (vertices_all db)(i \<mapsto> Other i l) \<rparr>)
      else Inl UnexpectedVertexLabel)"

text \<open>The \<open>switch\<close> of \<open>doProcessEdge\<close>, once both endpoints are found.  It has no default.\<close>

fun storeEdge ::
  "JsonDatabase \<Rightarrow> EdgeLabels \<Rightarrow> Vertex \<Rightarrow> Vertex \<Rightarrow> EdgeProperty \<Rightarrow> JsonDatabase"
where
  "storeEdge db e_contains from to prop =
     db \<lparr> out_contains := (out_contains db)
            (vertex_id from \<mapsto>
               (case out_contains db (vertex_id from) of
                  None \<Rightarrow> [to] | Some vs \<Rightarrow> vs @ [to])),
          in_contains := (in_contains db)(vertex_id to \<mapsto> from) \<rparr>"
| "storeEdge db e_item from to prop =
     (case (case prop of
              NoProperty \<Rightarrow> Some (Bare to)
            | Property t \<Rightarrow> Some (Tagged t to)
            | UnknownProperty _ \<Rightarrow> None) of
        None \<Rightarrow> db
      | Some itemTarget \<Rightarrow>
          db \<lparr> out_item := (out_item db)
                 (vertex_id from \<mapsto>
                    (case out_item db (vertex_id from) of
                       None \<Rightarrow> [itemTarget] | Some vs \<Rightarrow> vs @ [itemTarget])) \<rparr>)"
| "storeEdge db e_next from to prop =
     db \<lparr> out_next := (out_next db)(vertex_id from \<mapsto> to) \<rparr>"
| "storeEdge db e_moniker from to prop =
     db \<lparr> out_moniker := (out_moniker db)(vertex_id from \<mapsto> to),
          in_moniker := (in_moniker db)
            (vertex_id to \<mapsto>
               (case in_moniker db (vertex_id to) of None \<Rightarrow> [] | Some vs \<Rightarrow> vs) @ [from]) \<rparr>"
| "storeEdge db e_textDocument_documentSymbol from to prop =
     db \<lparr> out_documentSymbol := (out_documentSymbol db)(vertex_id from \<mapsto> to) \<rparr>"
| "storeEdge db e_textDocument_foldingRange from to prop =
     db \<lparr> out_foldingRange := (out_foldingRange db)(vertex_id from \<mapsto> to) \<rparr>"
| "storeEdge db e_textDocument_documentLink from to prop =
     db \<lparr> out_documentLink := (out_documentLink db)(vertex_id from \<mapsto> to) \<rparr>"
| "storeEdge db e_textDocument_diagnostic from to prop =
     db \<lparr> out_diagnostic := (out_diagnostic db)(vertex_id from \<mapsto> to) \<rparr>"
| "storeEdge db e_textDocument_definition from to prop =
     db \<lparr> out_definition := (out_definition db)(vertex_id from \<mapsto> to) \<rparr>"
| "storeEdge db e_textDocument_typeDefinition from to prop =
     db \<lparr> out_typeDefinition := (out_typeDefinition db)(vertex_id from \<mapsto> to) \<rparr>"
| "storeEdge db e_textDocument_hover from to prop =
     db \<lparr> out_hover := (out_hover db)(vertex_id from \<mapsto> to) \<rparr>"
| "storeEdge db e_textDocument_references from to prop =
     db \<lparr> out_references := (out_references db)(vertex_id from \<mapsto> to) \<rparr>"
| "storeEdge db _ from to prop = db"

definition doProcessEdge ::
  "JsonDatabase \<Rightarrow> EdgeLabels \<Rightarrow> Id \<Rightarrow> Id \<Rightarrow> EdgeProperty \<Rightarrow> Error + JsonDatabase"
where
  "doProcessEdge db label outV' inV' prop =
     (case vertices_all db outV' of
        None \<Rightarrow> Inl InvariantFailed
      | Some from \<Rightarrow>
          (case vertices_all db inV' of
             None \<Rightarrow> Inl InvariantFailed
           | Some to \<Rightarrow> Inr (storeEdge db label from to prop)))"

fun doProcessEdges ::
  "JsonDatabase \<Rightarrow> EdgeLabels \<Rightarrow> Id \<Rightarrow> Id list \<Rightarrow> EdgeProperty \<Rightarrow> Error + JsonDatabase"
where
  "doProcessEdges db label outV' [] prop = Inr db"
| "doProcessEdges db label outV' (inV' # rest) prop =
     (case doProcessEdge db label outV' inV' prop of
        Inl e \<Rightarrow> Inl e
      | Inr db' \<Rightarrow> doProcessEdges db' label outV' rest prop)"

definition processEdge :: "JsonDatabase \<Rightarrow> Edge \<Rightarrow> Error + JsonDatabase" where
  "processEdge db edge =
     (let prop = (if edge_label edge = e_item then property edge else NoProperty) in
      case inV edge of
        Some t \<Rightarrow> doProcessEdge db (edge_label edge) (outV edge) t prop
      | None \<Rightarrow>
          (case inVs edge of
             Some ts \<Rightarrow> doProcessEdges db (edge_label edge) (outV edge) ts prop
           | None \<Rightarrow> Inr db))"

text \<open>\<open>load\<close>, on the records parsed from the lines of the file.\<close>

fun load :: "Ext \<Rightarrow> JsonDatabase \<Rightarrow> Element list \<Rightarrow> Error + JsonDatabase" where
  "load E db [] = Inr db"
| "load E db (VertexElement v # rest) =
     (case processVertex E db v of Inl e \<Rightarrow> Inl e | Inr db' \<Rightarrow> load E db' rest)"
| "load E db (EdgeElement edge # rest) =
     (case processEdge db edge of Inl e \<Rightarrow> Inl e | Inr db' \<Rightarrow> load E db' rest)"
| "load E db (OtherElement # rest) = Inl UnexpectedElementType"

section \<open>Vocabulary of the statements\<close>

subsection \<open>Trails and monikers\<close>

text \<open>
  The moniker of the trail entry closest to the terminal that has one: the first entry
  with a moniker when the trail is read from its tail to its head, and nothing when no
  entry has one.
\<close>

definition closestMoniker :: "(Id \<times> Vertex option) list \<Rightarrow> Vertex option" where
  "closestMoniker trail =
     (case List.find (\<lambda>entry. snd entry \<noteq> None) (rev trail) of
        None \<Rightarrow> None
      | Some entry \<Rightarrow> snd entry)"

subsection \<open>Ranges at a position\<close>

text \<open>
  \<open>inRange v p\<close>: \<open>v\<close> is a range vertex that contains \<open>p\<close>; \<open>nested outer inner\<close>: both
  are range vertices and the span of \<open>inner\<close> lies within that of \<open>outer\<close>, as
  \<open>containsRange\<close> tests it; \<open>sameSpan\<close>: equal start and end.
\<close>

definition inRange :: "Vertex \<Rightarrow> Position \<Rightarrow> bool" where
  "inRange v p = (case v of Range i s e \<Rightarrow> containsPosition s e p | _ \<Rightarrow> False)"

definition nested :: "Vertex \<Rightarrow> Vertex \<Rightarrow> bool" where
  "nested outer inner =
     (case outer of
        Range i s e \<Rightarrow>
          (case inner of Range i' s' e' \<Rightarrow> containsRange s e s' e' | _ \<Rightarrow> False)
      | _ \<Rightarrow> False)"

definition sameSpan :: "Vertex \<Rightarrow> Vertex \<Rightarrow> bool" where
  "sameSpan a b = (range_start a = range_start b \<and> range_end a = range_end b)"

text \<open>
  The invariant of the candidate loop over the items \<open>X\<close> seen so far: no candidate
  while no item contains the position; otherwise the candidate is an item that contains
  the position and no item containing the position lies strictly inside it.
\<close>

definition minimalCandidate :: "Position \<Rightarrow> Vertex set \<Rightarrow> Vertex option \<Rightarrow> bool" where
  "minimalCandidate p X c =
     (case c of
        None \<Rightarrow> (\<forall>x\<in>X. \<not> inRange x p)
      | Some r \<Rightarrow> r \<in> X \<and> inRange r p \<and> (\<forall>x\<in>X. inRange x p \<longrightarrow> nested r x \<longrightarrow> nested x r))"

text \<open>The database with the document instances of \<open>file\<close> replaced by \<open>ds\<close>.\<close>

definition withDocuments :: "JsonDatabase \<Rightarrow> string \<Rightarrow> DocumentRec list \<Rightarrow> JsonDatabase" where
  "withDocuments db file ds =
     db \<lparr> indices_documents :=
            (indices_documents db)
              (file \<mapsto> \<lparr> bucket_hash = (case indices_documents db file of
                                           Some b \<Rightarrow> bucket_hash b | None \<Rightarrow> []),
                          bucket_documents = ds \<rparr>) \<rparr>"

subsection \<open>Chains of next edges\<close>

text \<open>
  \<open>nextIter db n c\<close>: the vertex reached from \<open>c\<close> by \<open>n\<close> \<open>next\<close> edges, if the chain is
  that long.  \<open>onNextCycle\<close>: some positive number of \<open>next\<close> edges leads back.
  \<open>acyclicFrom\<close>: no vertex of the chain that starts at \<open>start\<close> is on a cycle.
  \<open>noDirectEntry\<close>: no vertex of that chain has an entry in the relation map.
\<close>

fun nextIter :: "JsonDatabase \<Rightarrow> nat \<Rightarrow> Id \<Rightarrow> Id option" where
  "nextIter db 0 c = Some c"
| "nextIter db (Suc n) c =
     (case out_next db c of None \<Rightarrow> None | Some v \<Rightarrow> nextIter db n (vertex_id v))"

definition onNextCycle :: "JsonDatabase \<Rightarrow> Id \<Rightarrow> bool" where
  "onNextCycle db c = (\<exists>n>0. nextIter db n c = Some c)"

definition acyclicFrom :: "JsonDatabase \<Rightarrow> Id \<Rightarrow> bool" where
  "acyclicFrom db start = (\<forall>n c. nextIter db n start = Some c \<longrightarrow> \<not> onNextCycle db c)"

definition noDirectEntry :: "JsonDatabase \<Rightarrow> (Id \<rightharpoonup> Vertex) \<Rightarrow> Id \<Rightarrow> bool" where
  "noDirectEntry db edges start = (\<forall>k x. nextIter db k start = Some x \<longrightarrow> edges x = None)"

subsection \<open>Example databases\<close>

definition pos :: "nat \<Rightarrow> nat \<Rightarrow> Position" where
  "pos l c = \<lparr> line = l, character = c \<rparr>"

text \<open>
  Document 1 of \<open>file:///a.ts\<close> contains the ranges 2 at 0:0-0:10, 3 at 0:5-0:15 and 4
  at 0:6-0:12: the range 4 lies within 3, and 2 overlaps both.
\<close>

definition overlapExample :: JsonDatabase where
  "overlapExample =
     emptyDatabase \<lparr>
       out_contains :=
         [1 \<mapsto> [Range 2 (pos 0 0) (pos 0 10), Range 3 (pos 0 5) (pos 0 15),
               Range 4 (pos 0 6) (pos 0 12)]],
       indices_documents :=
         [''file:///a.ts'' \<mapsto>
            \<lparr> bucket_hash = ''h'',
              bucket_documents =
                [\<lparr> doc_id = 1, doc_uri = ''file:///a.ts'', doc_contents = None \<rparr>] \<rparr>] \<rparr>"

text \<open>Document 1 contains the range 3, at 0:2-0:5, and the range 2, at 0:0-0:10.\<close>

definition nestingExample :: JsonDatabase where
  "nestingExample =
     emptyDatabase \<lparr> out_contains :=
       [1 \<mapsto> [Range 3 (pos 0 2) (pos 0 5), Range 2 (pos 0 0) (pos 0 10)]] \<rparr>"

text \<open>Vertex 1 has a next edge to the result set 2, which has none.\<close>

definition chainExample :: JsonDatabase where
  "chainExample = emptyDatabase \<lparr> out_next := [1 \<mapsto> Other 2 resultSet] \<rparr>"

text \<open>The result sets 1 and 2 have next edges to each other.\<close>

definition cycleExample :: JsonDatabase where
  "cycleExample =
     emptyDatabase \<lparr> out_next := [1 \<mapsto> Other 2 resultSet, 2 \<mapsto> Other 1 resultSet] \<rparr>"

text \<open>
  Two instances of the document \<open>file:///a.ts\<close>: instance 1 contains the range 3,
  instance 2 has no \<open>contains\<close> list.
\<close>

definition docA :: "Id \<Rightarrow> DocumentRec" where
  "docA i = \<lparr> doc_id = i, doc_uri = ''file:///a.ts'', doc_contents = None \<rparr>"

definition emptyInstanceExample :: JsonDatabase where
  "emptyInstanceExample =
     emptyDatabase \<lparr>
       out_contains := [1 \<mapsto> [Range 3 (pos 0 2) (pos 0 5)]],
       indices_documents :=
         [''file:///a.ts'' \<mapsto> \<lparr> bucket_hash = ''h'', bucket_documents = [docA 1, docA 2] \<rparr>] \<rparr>"

text \<open>
  Two instances again: instance 1 contains the range 3 at 0:2-0:5, instance 2 contains
  the range 4 at 7:0-7:4.
\<close>

definition missExample :: JsonDatabase where
  "missExample =
     emptyDatabase \<lparr>
       out_contains := [1 \<mapsto> [Range 3 (pos 0 2) (pos 0 5)],
                        2 \<mapsto> [Range 4 (pos 7 0) (pos 7 4)]],
       indices_documents :=
         [''file:///a.ts'' \<mapsto> \<lparr> bucket_hash = ''h'', bucket_documents = [docA 2, docA 1] \<rparr>] \<rparr>"

subsection \<open>Queries\<close>

text \<open>
  The invariant of the accumulators of a query: the locations of the result have
  pairwise different keys, all recorded in \<open>dedupLocations\<close>; the keys looked up in the
  symbol index are pairwise different and are exactly those recorded in \<open>dedupMonikers\<close>.
\<close>

definition queryInv :: "Ext \<Rightarrow> QueryState \<Rightarrow> bool" where
  "queryInv E st =
     (distinct (map (makeKey E) (results st))
      \<and> makeKey E ` set (results st) \<subseteq> dedupLocations st
      \<and> distinct (expansions st)
      \<and> set (expansions st) = dedupMonikers st)"


definition recognizedVertexLabel :: "OtherLabel \<Rightarrow> bool" where
  "recognizedVertexLabel l =
     (l = packageInformation \<or> l = definitionResult \<or> l = implementationResult
      \<or> l = resultSet \<or> l = referenceResult \<or> l = hoverResult)"

definition handledEdgeLabel :: "EdgeLabels \<Rightarrow> bool" where
  "handledEdgeLabel l =
     (l = e_contains \<or> l = e_item \<or> l = e_next \<or> l = e_moniker
      \<or> l = e_textDocument_documentSymbol \<or> l = e_textDocument_foldingRange
      \<or> l = e_textDocument_documentLink \<or> l = e_textDocument_diagnostic
      \<or> l = e_textDocument_definition \<or> l = e_textDocument_typeDefinition
      \<or> l = e_textDocument_hover \<or> l = e_textDocument_references)"

text \<open>
  \<open>endpointsKnown db e\<close>: the vertices that the edge \<open>e\<close> names are in \<open>vertices.all\<close>
  (an edge with an empty \<open>inVs\<close> names none).
\<close>

definition endpointsKnown :: "JsonDatabase \<Rightarrow> Edge \<Rightarrow> bool" where
  "endpointsKnown db e =
     (case inV e of
        Some t \<Rightarrow> vertices_all db (outV e) \<noteq> None \<and> vertices_all db t \<noteq> None
      | None \<Rightarrow>
          (case inVs e of
             Some ts \<Rightarrow> ts = [] \<or> (vertices_all db (outV e) \<noteq> None
                                    \<and> list_all (\<lambda>t. vertices_all db t \<noteq> None) ts)
           | None \<Rightarrow> True))"

subsection \<open>An example dump\<close>

text \<open>
  An instance of the library functions for the examples: their uris are in normal form,
  so normalisation returns them; \<open>file:////a.ts\<close>, which has no authority and a path
  that begins with two slashes, is refused, as \<open>URI.parse\<close> refuses it; and every digest
  is replaced by an encoding of its input that has no collisions.
\<close>

definition idealExt :: Ext where
  "idealExt =
     \<lparr> normalizeUri = (\<lambda>u. case u of
                          None \<Rightarrow> Some ''file:///undefined''
                        | Some s \<Rightarrow> if s = ''file:////a.ts'' then None else Some s),
       locationDigest = (\<lambda>u sl sc el ec.
          replicate sl (CHR ''i'') @ '','' @ replicate sc (CHR ''i'') @ '','' @
          replicate el (CHR ''i'') @ '','' @ replicate ec (CHR ''i'') @ '','' @
          (case u of None \<Rightarrow> [] | Some s \<Rightarrow> CHR ''u'' # s)),
       monikerDigest = (\<lambda>s i. replicate (length s) (CHR ''i'') @ '','' @ s @ i),
       contentDigest = (\<lambda>c. c) \<rparr>"

text \<open>
  \<open>fooDump\<close>: the document \<open>file:///a.ts\<close> with the ranges 2 (the definition of \<open>foo\<close>) and
  3 (a use of it); both lead by a \<open>next\<close> edge to the result set 4, which carries the
  exported moniker \<open>foo().\<close>, the definition result 6 and the reference result 7.
  \<open>fooExample\<close> is the database after loading it.
\<close>

definition edge1 :: "EdgeLabels \<Rightarrow> Id \<Rightarrow> Id \<Rightarrow> Element" where
  "edge1 l from to =
     EdgeElement \<lparr> edge_label = l, outV = from, inV = Some to, inVs = None,
                   property = NoProperty \<rparr>"

definition edgeN :: "EdgeLabels \<Rightarrow> Id \<Rightarrow> Id list \<Rightarrow> EdgeProperty \<Rightarrow> Element" where
  "edgeN l from to p =
     EdgeElement \<lparr> edge_label = l, outV = from, inV = None, inVs = Some to, property = p \<rparr>"

definition fooDump :: "Element list" where
  "fooDump =
     [VertexElement (Document (docA 1)),
      VertexElement (Range 2 (pos 0 0) (pos 0 3)),
      VertexElement (Range 3 (pos 5 0) (pos 5 3)),
      VertexElement (Other 4 resultSet),
      VertexElement (Moniker 5 ''scip'' ''foo().'' (Some kind_export) None),
      VertexElement (Other 6 definitionResult),
      VertexElement (Other 7 referenceResult),
      edgeN e_contains 1 [2, 3] NoProperty,
      edge1 e_next 2 4,
      edge1 e_next 3 4,
      edge1 e_moniker 4 5,
      edge1 e_textDocument_definition 4 6,
      edgeN e_item 6 [2] NoProperty,
      edge1 e_textDocument_references 4 7,
      edgeN e_item 7 [2] (Property p_definitions),
      edgeN e_item 7 [3] (Property p_references)]"

definition fooKey :: string where
  "fooKey = ''iiii,scipfoo().''"

definition fooMoniker :: Vertex where
  "fooMoniker = Moniker 5 ''scip'' ''foo().'' (Some kind_export) (Some fooKey)"

definition fooExample :: JsonDatabase where
  "fooExample =
     emptyDatabase \<lparr>
       vertices_all :=
         [1 \<mapsto> Document (docA 1), 2 \<mapsto> Range 2 (pos 0 0) (pos 0 3),
          3 \<mapsto> Range 3 (pos 5 0) (pos 5 3), 4 \<mapsto> Other 4 resultSet, 5 \<mapsto> fooMoniker,
          6 \<mapsto> Other 6 definitionResult, 7 \<mapsto> Other 7 referenceResult],
       vertices_documents := [1 \<mapsto> Document (docA 1)],
       vertices_ranges := [2 \<mapsto> Range 2 (pos 0 0) (pos 0 3), 3 \<mapsto> Range 3 (pos 5 0) (pos 5 3)],
       out_contains := [1 \<mapsto> [Range 2 (pos 0 0) (pos 0 3), Range 3 (pos 5 0) (pos 5 3)]],
       out_item := [6 \<mapsto> [Bare (Range 2 (pos 0 0) (pos 0 3))],
                    7 \<mapsto> [Tagged p_definitions (Range 2 (pos 0 0) (pos 0 3)),
                          Tagged p_references (Range 3 (pos 5 0) (pos 5 3))]],
       out_next := [2 \<mapsto> Other 4 resultSet, 3 \<mapsto> Other 4 resultSet],
       out_moniker := [4 \<mapsto> fooMoniker],
       out_definition := [4 \<mapsto> Other 6 definitionResult],
       out_references := [4 \<mapsto> Other 7 referenceResult],
       in_contains := [2 \<mapsto> Document (docA 1), 3 \<mapsto> Document (docA 1)],
       in_moniker := [5 \<mapsto> [Other 4 resultSet]],
       indices_monikers := [fooKey \<mapsto> [fooMoniker]],
       indices_contents := [''No content provided.'' \<mapsto> ''No content provided.''],
       indices_documents :=
         [''file:///a.ts'' \<mapsto> \<lparr> bucket_hash = ''No content provided.'',
                                 bucket_documents = [docA 1] \<rparr>] \<rparr>"

definition loc :: "string \<Rightarrow> Position \<Rightarrow> Position \<Rightarrow> Location" where
  "loc u s e = \<lparr> uri = Some u, lrange = \<lparr> lstart = s, lend = e \<rparr> \<rparr>"

text \<open>
  \<open>declarationDump\<close>: a range with a declaration result.  \<open>relationDump l\<close>: the same
  range with an edge labelled \<open>l\<close> to a definition result.  \<open>twoVertices\<close>: the database
  after a range and a result set.
\<close>

definition declarationDump :: "Element list" where
  "declarationDump =
     [VertexElement (Document (docA 1)),
      VertexElement (Range 2 (pos 0 0) (pos 0 3)),
      edgeN e_contains 1 [2] NoProperty,
      VertexElement (Other 3 declarationResult),
      edge1 e_textDocument_declaration 2 3,
      edgeN e_item 3 [2] NoProperty]"

definition relationDump :: "EdgeLabels \<Rightarrow> Element list" where
  "relationDump l =
     [VertexElement (Document (docA 1)),
      VertexElement (Range 2 (pos 0 0) (pos 0 3)),
      edgeN e_contains 1 [2] NoProperty,
      VertexElement (Other 3 definitionResult),
      edge1 l 2 3,
      edgeN e_item 3 [2] NoProperty]"

definition twoVertices :: JsonDatabase where
  "twoVertices =
     emptyDatabase \<lparr>
       vertices_all := [1 \<mapsto> Range 1 (pos 0 0) (pos 0 3), 2 \<mapsto> Other 2 resultSet],
       vertices_ranges := [1 \<mapsto> Range 1 (pos 0 0) (pos 0 3)] \<rparr>"







section \<open>The most specific moniker\<close>

lemma scanTrail_take:
  "n \<le> length p \<Longrightarrow> scanTrail p n = closestMoniker (take n p)"
proof (induction n)
  case 0
  show ?case by (simp add: closestMoniker_def)
next
  case (Suc n)
  then have lt: "n < length p" by simp
  have tk: "take (Suc n) p = take n p @ [p ! n]"
    using lt by (simp add: take_Suc_conv_app_nth)
  show ?case
  proof (cases "snd (p ! n)")
    case None
    then show ?thesis using Suc lt by (simp add: tk closestMoniker_def)
  next
    case (Some m)
    then show ?thesis by (simp add: tk closestMoniker_def)
  qed
qed

text \<open>
  Claim C6.  \<open>getMostSpecificMoniker\<close> returns the moniker of the terminal vertex (the one
  that carries the result) when it has one; otherwise the moniker of the trail entry
  closest to the terminal that has one, and nothing when no trail entry has one.
\<close>

theorem getMostSpecificMoniker_closest:
  "getMostSpecificMoniker r =
     (case result r of
        Some (v, Some m) \<Rightarrow> Some m
      | Some (v, None) \<Rightarrow> closestMoniker (path r)
      | None \<Rightarrow> closestMoniker (path r))"
  by (simp add: getMostSpecificMoniker_def scanTrail_take split: option.split prod.split)

section \<open>Position resolution picks a narrowest range\<close>

lemma containsRange_trans:
  "containsRange s1 e1 s2 e2 \<Longrightarrow> containsRange s2 e2 s3 e3 \<Longrightarrow> containsRange s1 e1 s3 e3"
  unfolding containsRange_def by (auto split: if_splits)

lemma containsRange_antisym:
  "containsRange s1 e1 s2 e2 \<Longrightarrow> containsRange s2 e2 s1 e1 \<Longrightarrow> s1 = s2 \<and> e1 = e2"
  unfolding containsRange_def by (cases s1; cases s2; cases e1; cases e2) (auto split: if_splits)

lemma containsRange_refl:
  "containsPosition s e p \<Longrightarrow> containsRange s e s e"
  unfolding containsRange_def containsPosition_def by (auto split: if_splits)

lemma nested_trans: "nested a b \<Longrightarrow> nested b c \<Longrightarrow> nested a c"
  unfolding nested_def
  by (auto split: Vertex.splits intro: containsRange_trans)

lemma nested_antisym: "nested a b \<Longrightarrow> nested b a \<Longrightarrow> sameSpan a b"
  unfolding nested_def sameSpan_def
  by (auto split: Vertex.splits dest: containsRange_antisym)

lemma nested_refl: "inRange a p \<Longrightarrow> nested a a"
  unfolding nested_def inRange_def
  by (auto split: Vertex.splits intro: containsRange_refl)

lemma nested_sameSpan_left:
  "sameSpan a b \<Longrightarrow> is_range a \<Longrightarrow> is_range b \<Longrightarrow> nested a c = nested b c"
  unfolding nested_def sameSpan_def by (cases a; cases b) auto

lemma inRange_is_range: "inRange a p \<Longrightarrow> is_range a"
  unfolding inRange_def by (cases a) auto

lemma selectCandidate_step:
  "selectCandidate p (x # items) c =
     selectCandidate p items
       (if inRange x p \<and> (case c of None \<Rightarrow> True | Some r \<Rightarrow> is_range r \<and> nested r x)
        then Some x else c)"
proof (cases x)
  case (Range i s e)
  show ?thesis
  proof (cases c)
    case None
    then show ?thesis using Range by (simp add: inRange_def)
  next
    case (Some r)
    then show ?thesis using Range by (cases r) (auto simp: inRange_def nested_def)
  qed
qed (cases c; simp add: inRange_def)+

lemma minimalCandidate_step:
  assumes "minimalCandidate p X c"
  shows "minimalCandidate p (insert x X)
           (if inRange x p \<and> (case c of None \<Rightarrow> True | Some r \<Rightarrow> is_range r \<and> nested r x)
            then Some x else c)"
proof (cases c)
  case None
  with assms show ?thesis
    by (auto simp: minimalCandidate_def)
next
  case (Some r)
  with assms have r: "r \<in> X" "inRange r p"
    and m: "\<And>y. y \<in> X \<Longrightarrow> inRange y p \<Longrightarrow> nested r y \<Longrightarrow> nested y r"
    by (auto simp: minimalCandidate_def)
  show ?thesis
  proof (cases "inRange x p \<and> nested r x")
    case True
    then have rx: "nested r x" and xp: "inRange x p" by auto
    have "\<And>y. y \<in> X \<Longrightarrow> inRange y p \<Longrightarrow> nested x y \<Longrightarrow> nested y x"
      using m rx nested_trans by blast
    then show ?thesis
      using True Some r inRange_is_range[OF r(2)]
      by (auto simp: minimalCandidate_def)
  next
    case False
    then show ?thesis
      using Some r m by (auto simp: minimalCandidate_def)
  qed
qed

lemma selectCandidate_minimal:
  "minimalCandidate p X c \<Longrightarrow> minimalCandidate p (X \<union> set items) (selectCandidate p items c)"
proof (induction items arbitrary: X c)
  case Nil
  then show ?case by simp
next
  case (Cons x items)
  from minimalCandidate_step[OF Cons.prems, of x]
  have "minimalCandidate p (insert x X \<union> set items) (selectCandidate p (x # items) c)"
    unfolding selectCandidate_step by (rule Cons.IH)
  then show ?case by simp
qed

text \<open>
  Claim C4, as amended.  Let \<open>R1\<close> and \<open>R2\<close> be ranges of a document instance that both contain the
  position, the span of \<open>R2\<close> lying within that of \<open>R1\<close>.  Whatever the order of the
  \<open>contains\<close> list, the candidate chosen for the instance is a range of the list that
  contains the position; it never has the span of \<open>R1\<close> unless \<open>R1\<close> and \<open>R2\<close> have the
  same span; and it has the span of \<open>R2\<close> when \<open>R2\<close> is the narrowest, that is, lies
  within every range of the list that contains the position (as it does when \<open>R1\<close> and
  \<open>R2\<close> are the only such ranges).  This candidate is what the instance contributes to
  the result of \<open>findRangesFromPosition\<close>.
\<close>

theorem selectCandidate_most_specific:
  assumes cont: "out_contains db (doc_id d) = Some items"
    and R1: "R1 \<in> set items" "inRange R1 p"
    and R2: "R2 \<in> set items" "inRange R2 p"
    and n12: "nested R1 R2"
  shows "\<exists>c. selectCandidate p items None = Some c \<and> c \<in> set items \<and> inRange c p
           \<and> (\<not> sameSpan R1 R2 \<longrightarrow> \<not> sameSpan c R1)
           \<and> ((\<forall>x\<in>set items. inRange x p \<longrightarrow> nested x R2) \<longrightarrow> sameSpan c R2)
           \<and> (\<forall>ds res. rangesOfDocuments db p (d # ds) res
                          = rangesOfDocuments db p ds (res @ [c]))"
proof -
  have "minimalCandidate p {} None" by (simp add: minimalCandidate_def)
  from selectCandidate_minimal[OF this, of items]
  have mc: "minimalCandidate p (set items) (selectCandidate p items None)" by simp
  then obtain c where c: "selectCandidate p items None = Some c"
    using R1 by (cases "selectCandidate p items None") (auto simp: minimalCandidate_def)
  with mc have cin: "c \<in> set items" and cp: "inRange c p"
    and cmin: "\<And>y. y \<in> set items \<Longrightarrow> inRange y p \<Longrightarrow> nested c y \<Longrightarrow> nested y c"
    by (auto simp: minimalCandidate_def)
  have never: "\<not> sameSpan c R1" if ns: "\<not> sameSpan R1 R2"
  proof
    assume s: "sameSpan c R1"
    have "nested c R2"
      using nested_sameSpan_left[OF s inRange_is_range[OF cp] inRange_is_range[OF R1(2)]] n12
      by simp
    then have "nested R2 c" using cmin R2 by blast
    then have "nested R2 R1"
      using nested_trans[of R2 c R1] nested_refl[OF R1(2)]
        nested_sameSpan_left[OF s inRange_is_range[OF cp] inRange_is_range[OF R1(2)]]
      by blast
    with n12 have "sameSpan R1 R2" by (rule nested_antisym)
    with ns show False by contradiction
  qed
  have narrowest: "sameSpan c R2" if all: "\<forall>x\<in>set items. inRange x p \<longrightarrow> nested x R2"
  proof -
    have "nested c R2" using all cin cp by blast
    moreover from this have "nested R2 c" using cmin R2 by blast
    ultimately show ?thesis by (rule nested_antisym)
  qed
  have nonempty: "items \<noteq> []" using R1 by auto
  have loop: "rangesOfDocuments db p (d # ds) res = rangesOfDocuments db p ds (res @ [c])" for ds res
    using cont c nonempty by simp
  show ?thesis using c cin cp never narrowest loop by blast
qed


theorem selectCandidate_most_specific_witness:
  "out_contains nestingExample (doc_id \<lparr> doc_id = 1, doc_uri = ''file:///a.ts'', doc_contents = None \<rparr>)
     = Some [Range 3 (pos 0 2) (pos 0 5), Range 2 (pos 0 0) (pos 0 10)]
   \<and> inRange (Range 2 (pos 0 0) (pos 0 10)) (pos 0 3)
   \<and> inRange (Range 3 (pos 0 2) (pos 0 5)) (pos 0 3)
   \<and> nested (Range 2 (pos 0 0) (pos 0 10)) (Range 3 (pos 0 2) (pos 0 5))
   \<and> \<not> sameSpan (Range 2 (pos 0 0) (pos 0 10)) (Range 3 (pos 0 2) (pos 0 5))
   \<and> selectCandidate (pos 0 3) [Range 3 (pos 0 2) (pos 0 5), Range 2 (pos 0 0) (pos 0 10)] None
        = Some (Range 3 (pos 0 2) (pos 0 5))
   \<and> (\<exists>c. sameSpan c (Range 3 (pos 0 2) (pos 0 5))
          \<and> \<not> sameSpan c (Range 2 (pos 0 0) (pos 0 10))
          \<and> rangesOfDocuments nestingExample (pos 0 3)
               [\<lparr> doc_id = 1, doc_uri = ''file:///a.ts'', doc_contents = None \<rparr>] [] = Some [c])"
proof -
  let ?d = "\<lparr> doc_id = 1, doc_uri = ''file:///a.ts'', doc_contents = None \<rparr>"
  let ?R1 = "Range 2 (pos 0 0) (pos 0 10)"
  let ?R2 = "Range 3 (pos 0 2) (pos 0 5)"
  let ?items = "[?R2, ?R1]"
  have h1: "out_contains nestingExample (doc_id ?d) = Some ?items"
    by (simp add: nestingExample_def emptyDatabase_def)
  have h2: "?R1 \<in> set ?items" and h4: "?R2 \<in> set ?items" by simp_all
  have h3: "inRange ?R1 (pos 0 3)" and h5: "inRange ?R2 (pos 0 3)"
    by (simp_all add: inRange_def containsPosition_def pos_def)
  have h6: "nested ?R1 ?R2" and h7: "nested ?R2 ?R2"
    by (simp_all add: nested_def containsRange_def pos_def)
  have h8: "\<not> sameSpan ?R1 ?R2" by (simp add: sameSpan_def pos_def)
  have sel: "selectCandidate (pos 0 3) ?items None = Some ?R2"
    by (simp add: containsPosition_def containsRange_def pos_def)
  from selectCandidate_most_specific[OF h1 h2 h3 h4 h5 h6]
  obtain c where c: "\<not> sameSpan ?R1 ?R2 \<longrightarrow> \<not> sameSpan c ?R1"
      "(\<forall>x\<in>set ?items. inRange x (pos 0 3) \<longrightarrow> nested x ?R2) \<longrightarrow> sameSpan c ?R2"
      "\<forall>ds res. rangesOfDocuments nestingExample (pos 0 3) (?d # ds) res
                  = rangesOfDocuments nestingExample (pos 0 3) ds (res @ [c])"
    by blast
  have "sameSpan c ?R2" using c(2) h6 h7 by simp
  moreover have "\<not> sameSpan c ?R1" using c(1) h8 by simp
  moreover have "rangesOfDocuments nestingExample (pos 0 3) [?d] [] = Some [c]"
    using c(3)[rule_format, of "[]" "[]"] by simp
  ultimately show ?thesis using h1 h3 h5 h6 h8 sel by blast
qed

text \<open>
  The claim as it stands fails when a further range overlaps: in \<open>overlapExample\<close> the
  ranges 3 and 4 both contain 0:7 and 4 lies within 3, but the range chosen is 2, which
  comes first and contains neither; with the range 3 first, the range 4 is chosen.  The
  choice depends on the order of the \<open>contains\<close> list.
\<close>

theorem selection_depends_on_order:
  "inRange (Range 3 (pos 0 5) (pos 0 15)) (pos 0 7)
   \<and> inRange (Range 4 (pos 0 6) (pos 0 12)) (pos 0 7)
   \<and> nested (Range 3 (pos 0 5) (pos 0 15)) (Range 4 (pos 0 6) (pos 0 12))
   \<and> findRangesFromPosition overlapExample ''file:///a.ts'' (pos 0 7)
       = Some [Range 2 (pos 0 0) (pos 0 10)]
   \<and> \<not> sameSpan (Range 2 (pos 0 0) (pos 0 10)) (Range 4 (pos 0 6) (pos 0 12))
   \<and> selectCandidate (pos 0 7)
        [Range 3 (pos 0 5) (pos 0 15), Range 2 (pos 0 0) (pos 0 10),
         Range 4 (pos 0 6) (pos 0 12)] None
       = Some (Range 4 (pos 0 6) (pos 0 12))"
  by (simp add: inRange_def nested_def sameSpan_def findRangesFromPosition_def
      overlapExample_def emptyDatabase_def containsPosition_def containsRange_def pos_def)

section \<open>Document instances without ranges\<close>

lemma rangesOfDocuments_abort:
  "d \<in> set ds \<Longrightarrow> out_contains db (doc_id d) = None \<or> out_contains db (doc_id d) = Some []
     \<Longrightarrow> rangesOfDocuments db p ds res = None"
  by (induction ds arbitrary: res) (auto split: option.splits)

lemma rangesOfDocuments_skip:
  "out_contains db (doc_id d) = Some items \<Longrightarrow> items \<noteq> []
     \<Longrightarrow> selectCandidate p items None = None
     \<Longrightarrow> rangesOfDocuments db p (ds1 @ d # ds2) res = rangesOfDocuments db p (ds1 @ ds2) res"
  by (induction ds1 arbitrary: res) (auto split: option.splits)

lemma selectCandidate_None_iff:
  "selectCandidate p items None = None \<longleftrightarrow> (\<forall>x\<in>set items. \<not> inRange x p)"
proof -
  have "minimalCandidate p {} None" by (simp add: minimalCandidate_def)
  from selectCandidate_minimal[OF this, of items]
  have mc: "minimalCandidate p (set items) (selectCandidate p items None)" by simp
  show ?thesis
  proof (cases "selectCandidate p items None")
    case None
    with mc show ?thesis by (simp add: minimalCandidate_def)
  next
    case (Some c)
    with mc show ?thesis by (auto simp: minimalCandidate_def)
  qed
qed

lemma rangesOfDocuments_indices:
  "rangesOfDocuments (db \<lparr> indices_documents := m \<rparr>) p ds res = rangesOfDocuments db p ds res"
  by (induction ds arbitrary: res) (auto split: option.splits)

text \<open>
  Claim C9.  When one of the document instances of a URI has no \<open>contains\<close> list, or an
  empty one, \<open>findRangesFromPosition\<close> returns \<open>undefined\<close> for that URI, whatever the
  other instances contain.  An instance whose \<open>contains\<close> list is not empty but holds no
  range containing the position changes nothing: the result is the one computed without
  that instance.
\<close>

theorem findRangesFromPosition_document_exit:
  assumes "indices_documents db file = Some b"
  shows
    "(\<forall>d\<in>set (bucket_documents b).
        out_contains db (doc_id d) = None \<or> out_contains db (doc_id d) = Some []
          \<longrightarrow> findRangesFromPosition db file p = None)
     \<and> (\<forall>d ds1 ds2 items.
          bucket_documents b = ds1 @ d # ds2 \<and> out_contains db (doc_id d) = Some items
            \<and> items \<noteq> [] \<and> (\<forall>x\<in>set items. \<not> inRange x p)
          \<longrightarrow> findRangesFromPosition db file p
                = findRangesFromPosition (withDocuments db file (ds1 @ ds2)) file p)"
proof (intro conjI ballI allI impI)
  fix d
  assume "d \<in> set (bucket_documents b)"
    and "out_contains db (doc_id d) = None \<or> out_contains db (doc_id d) = Some []"
  then have "rangesOfDocuments db p (bucket_documents b) [] = None"
    by (rule rangesOfDocuments_abort)
  then show "findRangesFromPosition db file p = None"
    using assms by (simp add: findRangesFromPosition_def)
next
  fix d ds1 ds2 items
  assume h: "bucket_documents b = ds1 @ d # ds2 \<and> out_contains db (doc_id d) = Some items
            \<and> items \<noteq> [] \<and> (\<forall>x\<in>set items. \<not> inRange x p)"
  then have "selectCandidate p items None = None"
    by (simp add: selectCandidate_None_iff)
  with h have "rangesOfDocuments db p (ds1 @ d # ds2) [] = rangesOfDocuments db p (ds1 @ ds2) []"
    by (intro rangesOfDocuments_skip) auto
  then show "findRangesFromPosition db file p
                = findRangesFromPosition (withDocuments db file (ds1 @ ds2)) file p"
    using assms h
    by (simp add: findRangesFromPosition_def withDocuments_def rangesOfDocuments_indices)
qed

theorem findRangesFromPosition_document_exit_witness:
  "indices_documents emptyInstanceExample ''file:///a.ts''
     = Some \<lparr> bucket_hash = ''h'', bucket_documents = [docA 1, docA 2] \<rparr>
   \<and> docA 2 \<in> set [docA 1, docA 2]
   \<and> out_contains emptyInstanceExample (doc_id (docA 2)) = None
   \<and> out_contains emptyInstanceExample (doc_id (docA 1)) = Some [Range 3 (pos 0 2) (pos 0 5)]
   \<and> inRange (Range 3 (pos 0 2) (pos 0 5)) (pos 0 3)
   \<and> findRangesFromPosition emptyInstanceExample ''file:///a.ts'' (pos 0 3) = None
   \<and> indices_documents missExample ''file:///a.ts''
     = Some \<lparr> bucket_hash = ''h'', bucket_documents = [docA 2, docA 1] \<rparr>
   \<and> out_contains missExample (doc_id (docA 2)) = Some [Range 4 (pos 7 0) (pos 7 4)]
   \<and> \<not> inRange (Range 4 (pos 7 0) (pos 7 4)) (pos 0 3)
   \<and> findRangesFromPosition missExample ''file:///a.ts'' (pos 0 3)
       = findRangesFromPosition (withDocuments missExample ''file:///a.ts'' [docA 1])
           ''file:///a.ts'' (pos 0 3)
   \<and> findRangesFromPosition missExample ''file:///a.ts'' (pos 0 3)
       = Some [Range 3 (pos 0 2) (pos 0 5)]"
proof -
  let ?f = "''file:///a.ts''"
  let ?b1 = "\<lparr> bucket_hash = ''h'', bucket_documents = [docA 1, docA 2] \<rparr>"
  let ?b2 = "\<lparr> bucket_hash = ''h'', bucket_documents = [docA 2, docA 1] \<rparr>"
  have a1: "indices_documents emptyInstanceExample ?f = Some ?b1"
    by (simp add: emptyInstanceExample_def emptyDatabase_def)
  have a2: "out_contains emptyInstanceExample (doc_id (docA 2)) = None"
    by (simp add: emptyInstanceExample_def emptyDatabase_def docA_def)
  have a3: "out_contains emptyInstanceExample (doc_id (docA 1))
              = Some [Range 3 (pos 0 2) (pos 0 5)]"
    by (simp add: emptyInstanceExample_def emptyDatabase_def docA_def)
  have a4: "inRange (Range 3 (pos 0 2) (pos 0 5)) (pos 0 3)"
    by (simp add: inRange_def containsPosition_def pos_def)
  have a5: "findRangesFromPosition emptyInstanceExample ?f (pos 0 3) = None"
    using findRangesFromPosition_document_exit[OF a1, of "pos 0 3"] a2 by simp
  have b1: "indices_documents missExample ?f = Some ?b2"
    by (simp add: missExample_def emptyDatabase_def)
  have b2: "out_contains missExample (doc_id (docA 2)) = Some [Range 4 (pos 7 0) (pos 7 4)]"
    by (simp add: missExample_def emptyDatabase_def docA_def)
  have b3: "\<not> inRange (Range 4 (pos 7 0) (pos 7 4)) (pos 0 3)"
    by (simp add: inRange_def containsPosition_def pos_def)
  have "bucket_documents ?b2 = [] @ docA 2 # [docA 1]
          \<and> out_contains missExample (doc_id (docA 2)) = Some [Range 4 (pos 7 0) (pos 7 4)]
          \<and> [Range 4 (pos 7 0) (pos 7 4)] \<noteq> []
          \<and> (\<forall>x\<in>set [Range 4 (pos 7 0) (pos 7 4)]. \<not> inRange x (pos 0 3))"
    using b2 b3 by simp
  with findRangesFromPosition_document_exit[OF b1, of "pos 0 3"]
  have b4: "findRangesFromPosition missExample ?f (pos 0 3)
       = findRangesFromPosition (withDocuments missExample ?f ([] @ [docA 1])) ?f (pos 0 3)"
    by blast
  have b5: "findRangesFromPosition missExample ?f (pos 0 3) = Some [Range 3 (pos 0 2) (pos 0 5)]"
    by (simp add: findRangesFromPosition_def missExample_def emptyDatabase_def docA_def
        containsPosition_def pos_def)
  show ?thesis using a1 a2 a3 a4 a5 b1 b2 b3 b4 b5 by simp
qed

section \<open>Termination of path resolution\<close>

lemma nextIter_add:
  "nextIter db (n + m) c = Option.bind (nextIter db n c) (nextIter db m)"
  by (induction n arbitrary: c) (auto split: option.splits)

lemma nextIter_Suc_end:
  "nextIter db (Suc n) c =
     Option.bind (nextIter db n c)
       (\<lambda>c'. case out_next db c' of None \<Rightarrow> None | Some v \<Rightarrow> Some (vertex_id v))"
proof -
  have "nextIter db (Suc 0) =
          (\<lambda>c'. case out_next db c' of None \<Rightarrow> None | Some v \<Rightarrow> Some (vertex_id v))"
    by (rule ext) (simp split: option.split)
  then show ?thesis using nextIter_add[of db n "Suc 0" c] by simp
qed

lemma chain_ends:
  assumes fin: "finite (dom (out_next db))" and ac: "acyclicFrom db start"
  shows "\<exists>n c. nextIter db n start = Some c \<and> out_next db c = None"
proof (rule ccontr)
  assume no: "\<not> ?thesis"
  have all: "\<exists>c. nextIter db n start = Some c \<and> c \<in> dom (out_next db)" for n
  proof (induction n)
    case 0
    from no have "out_next db start \<noteq> None" by (metis nextIter.simps(1))
    then show ?case by auto
  next
    case (Suc n)
    then obtain c v where c: "nextIter db n start = Some c" "out_next db c = Some v" by auto
    then have s: "nextIter db (Suc n) start = Some (vertex_id v)"
      by (subst nextIter_Suc_end) simp
    have "out_next db (vertex_id v) \<noteq> None"
    proof
      assume "out_next db (vertex_id v) = None"
      with s have "\<exists>n c. nextIter db n start = Some c \<and> out_next db c = None" by blast
      with no show False by contradiction
    qed
    with s show ?case by (simp only:) auto
  qed
  define f where "f n = the (nextIter db n start)" for n
  have fS: "nextIter db n start = Some (f n)" for n using all[of n] by (auto simp: f_def)
  have "f n \<in> dom (out_next db)" for n using all[of n] by (auto simp: f_def)
  then have "range f \<subseteq> dom (out_next db)" by auto
  then have "finite (range f)" using fin by (rule finite_subset)
  then have "\<not> inj f" using finite_imageD[of f UNIV] infinite_UNIV_nat by blast
  then obtain i j where ij: "f i = f j" "i \<noteq> j" by (auto simp: inj_on_def)
  have cyc: "onNextCycle db (f a)" if "a < b" "f a = f b" for a b
  proof -
    have "nextIter db (a + (b - a)) start = Option.bind (nextIter db a start) (nextIter db (b - a))"
      by (rule nextIter_add)
    then have "nextIter db (b - a) (f a) = Some (f a)"
      using that fS[of a] fS[of b] by simp
    then show ?thesis using that unfolding onNextCycle_def by (intro exI[of _ "b - a"]) simp
  qed
  have "\<exists>a. onNextCycle db (f a)"
    using ij cyc[of i j] cyc[of j i] by (cases "i < j") (auto simp: not_less le_less)
  then show False using ac fS unfolding acyclicFrom_def by blast
qed

lemma getResultPathFrom_terminates:
  "nextIter db n c = Some c' \<Longrightarrow> out_next db c' = None \<Longrightarrow>
     \<exists>r. getResultPathFrom db edges c trail = Some r
        \<and> (case result r of
             Some (v, m) \<Rightarrow> \<exists>k x. k \<le> n \<and> nextIter db k c = Some x \<and> edges x = Some v
                               \<and> m = out_moniker db x \<and> length (path r) = length trail + k
           | None \<Rightarrow> length (path r) = length trail + Suc n
                       \<and> (\<forall>k x. nextIter db k c = Some x \<longrightarrow> edges x = None))"
proof (induction n arbitrary: c trail)
  case 0
  then have c: "c' = c" by simp
  show ?case
  proof (cases "edges c")
    case None
    have "\<And>k x. nextIter db k c = Some x \<Longrightarrow> edges x = None"
      subgoal for k x using 0 None c by (cases k) auto
      done
    then show ?thesis using 0 None c
      by (subst getResultPathFrom.simps) simp
  next
    case (Some v)
    have "nextIter db 0 c = Some c" by simp
    moreover have "getResultPathFrom db edges c trail
        = Some \<lparr> path = trail, result = Some (v, out_moniker db c) \<rparr>"
      using Some by (subst getResultPathFrom.simps) simp
    ultimately show ?thesis using Some by fastforce
  qed
next
  case (Suc n)
  then obtain v where v: "out_next db c = Some v" "nextIter db n (vertex_id v) = Some c'"
    by (auto split: option.splits)
  show ?case
  proof (cases "edges c")
    case (Some w)
    have "nextIter db 0 c = Some c" by simp
    moreover have "getResultPathFrom db edges c trail
        = Some \<lparr> path = trail, result = Some (w, out_moniker db c) \<rparr>"
      using Some by (subst getResultPathFrom.simps) simp
    ultimately show ?thesis using Some by fastforce
  next
    case None
    from Suc.IH[OF v(2) Suc.prems(2), of "trail @ [(c, out_moniker db c)]"]
    obtain r where r: "getResultPathFrom db edges (vertex_id v) (trail @ [(c, out_moniker db c)]) = Some r"
      and sh: "(case result r of
             Some (w, m) \<Rightarrow> \<exists>k x. k \<le> n \<and> nextIter db k (vertex_id v) = Some x \<and> edges x = Some w
                               \<and> m = out_moniker db x
                               \<and> length (path r) = length (trail @ [(c, out_moniker db c)]) + k
           | None \<Rightarrow> length (path r) = length (trail @ [(c, out_moniker db c)]) + Suc n
                       \<and> (\<forall>k x. nextIter db k (vertex_id v) = Some x \<longrightarrow> edges x = None))"
      by blast
    have g: "getResultPathFrom db edges c trail = Some r"
      using None v r by (subst getResultPathFrom.simps) simp
    show ?thesis
    proof (cases "result r")
      case None' : None
      have "\<And>k x. nextIter db k c = Some x \<Longrightarrow> edges x = None"
        subgoal for k x using sh None' None v by (cases k) auto
        done
      then show ?thesis using g sh None' by simp
    next
      case (Some wm)
      obtain w m where wm: "wm = (w, m)" by (cases wm)
      from sh Some wm obtain k x where
        k: "k \<le> n" "nextIter db k (vertex_id v) = Some x" "edges x = Some w"
           "m = out_moniker db x" "length (path r) = length trail + Suc k"
        by auto
      have "nextIter db (Suc k) c = Some x" using v k by simp
      then have "\<exists>k' x'. k' \<le> Suc n \<and> nextIter db k' c = Some x' \<and> edges x' = Some w
                   \<and> m = out_moniker db x' \<and> length (path r) = length trail + k'"
        using k by (intro exI[of _ "Suc k"] exI[of _ x]) simp
      then show ?thesis using g Some wm by simp
    qed
  qed
qed

lemma cycle_all_defined:
  assumes "0 < k" "nextIter db k c = Some c"
  shows "\<exists>x. nextIter db n c = Some x"
proof (induction n rule: less_induct)
  case (less n)
  show ?case
  proof (cases "n < k")
    case True
    have "nextIter db (n + (k - n)) c = Option.bind (nextIter db n c) (nextIter db (k - n))"
      by (rule nextIter_add)
    with True assms show ?thesis by (cases "nextIter db n c") auto
  next
    case False
    have "nextIter db (k + (n - k)) c = Option.bind (nextIter db k c) (nextIter db (n - k))"
      by (rule nextIter_add)
    with False assms have "nextIter db n c = nextIter db (n - k) c" by simp
    moreover have "n - k < n" using False assms by simp
    ultimately show ?thesis using less by metis
  qed
qed

lemma getResultPathFrom_diverges_aux:
  assumes "getResultPathFrom db edges c trail = Some r"
  shows "\<not> (\<forall>n. \<exists>x. nextIter db n c = Some x \<and> edges x = None)"
proof (rule getResultPathFrom.raw_induct
    [where P = "\<lambda>db edges c trail r. \<not> (\<forall>n. \<exists>x. nextIter db n c = Some x \<and> edges x = None)",
     OF _ assms])
  fix f :: "JsonDatabase \<Rightarrow> (Id \<rightharpoonup> Vertex) \<Rightarrow> Id \<Rightarrow> (Id \<times> Vertex option) list \<Rightarrow> ResultPath option"
    and db edges c trail r
  assume IH: "\<And>db edges c trail r. f db edges c trail = Some r \<Longrightarrow>
                \<not> (\<forall>n. \<exists>x. nextIter db n c = Some x \<and> edges x = None)"
    and step: "(case edges c of
        None \<Rightarrow>
          (case out_next db c of
             None \<Rightarrow> Some \<lparr> path = trail @ [(c, out_moniker db c)], result = None \<rparr>
           | Some nxt \<Rightarrow> f db edges (vertex_id nxt) (trail @ [(c, out_moniker db c)]))
      | Some v \<Rightarrow> Some \<lparr> path = trail, result = Some (v, out_moniker db c) \<rparr>) = Some r"
  show "\<not> (\<forall>n. \<exists>x. nextIter db n c = Some x \<and> edges x = None)"
  proof
    assume bad: "\<forall>n. \<exists>x. nextIter db n c = Some x \<and> edges x = None"
    from bad[rule_format, of 0] have e: "edges c = None" by simp
    from bad[rule_format, of 1] obtain v where v: "out_next db c = Some v"
      by (auto split: option.splits)
    have "\<forall>n. \<exists>x. nextIter db n (vertex_id v) = Some x \<and> edges x = None"
    proof
      fix n
      from bad[rule_format, of "Suc n"] v
      show "\<exists>x. nextIter db n (vertex_id v) = Some x \<and> edges x = None" by simp
    qed
    moreover from step e v
    have "f db edges (vertex_id v) (trail @ [(c, out_moniker db c)]) = Some r" by simp
    ultimately show False using IH by blast
  qed
qed

lemma chainExample_acyclic: "acyclicFrom chainExample 1"
proof -
  have n2: "nextIter chainExample (Suc n) 2 = None" for n
    by (simp add: chainExample_def emptyDatabase_def)
  have n1: "nextIter chainExample (Suc n) 1 = nextIter chainExample n 2" for n
    by (simp add: chainExample_def emptyDatabase_def)
  have c2: "\<not> onNextCycle chainExample 2"
    unfolding onNextCycle_def using n2 by (metis Suc_pred option.distinct(1))
  have c1: "\<not> onNextCycle chainExample 1"
  proof
    assume "onNextCycle chainExample 1"
    then obtain n where n: "0 < n" "nextIter chainExample n 1 = Some 1"
      by (auto simp: onNextCycle_def)
    then obtain m where m: "n = Suc m" by (cases n) auto
    with n n1 have "nextIter chainExample m 2 = Some 1" by simp
    then show False using n2 by (cases m) auto
  qed
  have "c = 1 \<or> c = 2" if "nextIter chainExample n 1 = Some c" for n c
  proof (cases n)
    case 0
    with that show ?thesis by simp
  next
    case (Suc m)
    with that n1 have "nextIter chainExample m 2 = Some c" by simp
    then show ?thesis using n2 by (cases m) auto
  qed
  then show ?thesis unfolding acyclicFrom_def using c1 c2 by blast
qed

text \<open>
  Claim C8.  When the chain of \<open>next\<close> edges that starts at a vertex meets no cycle (the
  maps of a database are finite), \<open>getResultPath\<close> returns: either the entry of the
  relation map found at a vertex of the chain, with the moniker of that vertex and the
  trail of the vertices before it, or no result and a trail that is not empty.  When the
  starting vertex is on a cycle of \<open>next\<close> edges and no vertex of the cycle has an entry
  in the relation map, \<open>getResultPath\<close> does not return.
\<close>

theorem getResultPath_termination:
  "(finite (dom (out_next db)) \<and> acyclicFrom db start \<longrightarrow>
      (\<exists>r. getResultPath db start edges = Some r
         \<and> (case result r of
              Some (v, m) \<Rightarrow> \<exists>k x. nextIter db k start = Some x \<and> edges x = Some v
                                \<and> m = out_moniker db x \<and> length (path r) = k
            | None \<Rightarrow> path r \<noteq> [] \<and> noDirectEntry db edges start)))
   \<and> (onNextCycle db start \<and> noDirectEntry db edges start
        \<longrightarrow> getResultPath db start edges = None)"
proof (intro conjI impI)
  assume "finite (dom (out_next db)) \<and> acyclicFrom db start"
  then obtain n c where nc: "nextIter db n start = Some c" "out_next db c = None"
    using chain_ends by blast
  from getResultPathFrom_terminates[OF nc, of edges "[]"]
  obtain r where g: "getResultPath db start edges = Some r"
    and sh: "(case result r of
             Some (v, m) \<Rightarrow> \<exists>k x. k \<le> n \<and> nextIter db k start = Some x \<and> edges x = Some v
                               \<and> m = out_moniker db x
                               \<and> length (path r) = length ([] :: (Id \<times> Vertex option) list) + k
           | None \<Rightarrow> length (path r) = length ([] :: (Id \<times> Vertex option) list) + Suc n
                       \<and> (\<forall>k x. nextIter db k start = Some x \<longrightarrow> edges x = None))"
    unfolding getResultPath_def by blast
  have "(case result r of
              Some (v, m) \<Rightarrow> \<exists>k x. nextIter db k start = Some x \<and> edges x = Some v
                                \<and> m = out_moniker db x \<and> length (path r) = k
            | None \<Rightarrow> path r \<noteq> [] \<and> noDirectEntry db edges start)"
  proof (cases "result r")
    case None
    with sh show ?thesis by (auto simp: noDirectEntry_def)
  next
    case (Some vm)
    with sh show ?thesis by (cases vm) auto
  qed
  with g show "\<exists>r. getResultPath db start edges = Some r
         \<and> (case result r of
              Some (v, m) \<Rightarrow> \<exists>k x. nextIter db k start = Some x \<and> edges x = Some v
                                \<and> m = out_moniker db x \<and> length (path r) = k
            | None \<Rightarrow> path r \<noteq> [] \<and> noDirectEntry db edges start)"
    by blast
next
  assume h: "onNextCycle db start \<and> noDirectEntry db edges start"
  then obtain k where k: "0 < k" "nextIter db k start = Some start"
    by (auto simp: onNextCycle_def)
  have "\<forall>n. \<exists>x. nextIter db n start = Some x \<and> edges x = None"
    using cycle_all_defined[OF k] h unfolding noDirectEntry_def by blast
  then show "getResultPath db start edges = None"
    unfolding getResultPath_def
    using getResultPathFrom_diverges_aux[of db edges start "[]"]
    by (cases "getResultPathFrom db edges start []") auto
qed

theorem getResultPath_termination_witness:
  "finite (dom (out_next chainExample)) \<and> acyclicFrom chainExample 1
   \<and> getResultPath chainExample 1 (out_definition chainExample)
       = Some \<lparr> path = [(1, None), (2, None)], result = None \<rparr>
   \<and> onNextCycle cycleExample 1
   \<and> noDirectEntry cycleExample (out_definition cycleExample) 1
   \<and> getResultPath cycleExample 1 (out_definition cycleExample) = None"
proof -
  have f: "finite (dom (out_next chainExample))"
    by (simp add: chainExample_def emptyDatabase_def)
  have c: "onNextCycle cycleExample 1"
    unfolding onNextCycle_def
    by (rule exI[of _ 2]) (simp add: cycleExample_def emptyDatabase_def numeral_2_eq_2)
  have n: "noDirectEntry cycleExample (out_definition cycleExample) 1"
    by (simp add: noDirectEntry_def cycleExample_def emptyDatabase_def)
  have e: "getResultPath chainExample 1 (out_definition chainExample)
             = Some \<lparr> path = [(1, None), (2, None)], result = None \<rparr>"
    by (simp add: getResultPath_def getResultPathFrom.simps chainExample_def emptyDatabase_def)
  have "\<exists>r. getResultPath chainExample 1 (out_definition chainExample) = Some r"
    using getResultPath_termination[of chainExample 1 "out_definition chainExample"]
      f chainExample_acyclic by blast
  moreover have "getResultPath cycleExample 1 (out_definition cycleExample) = None"
    using getResultPath_termination[of cycleExample 1 "out_definition cycleExample"] c n
    by blast
  ultimately show ?thesis using f chainExample_acyclic c n e by blast
qed

section \<open>Invariants of a query\<close>

lemma rbind_Inr:
  "rbind m f = Some (Inr y) \<longleftrightarrow> (\<exists>x. m = Some (Inr x) \<and> f x = Some (Inr y))"
  unfolding rbind_def by (cases m) (auto split: sum.splits)

lemma forEach_preserves:
  "(\<And>x st st'. x \<in> set xs \<Longrightarrow> I st \<Longrightarrow> body x st = Some (Inr st') \<Longrightarrow> I st')
     \<Longrightarrow> I st \<Longrightarrow> forEach body xs st = Some (Inr st') \<Longrightarrow> I st'"
proof (induction xs arbitrary: st)
  case Nil
  then show ?case by simp
next
  case (Cons x xs)
  from Cons.prems(3) obtain st1 where
    b: "body x st = Some (Inr st1)" and r: "forEach body xs st1 = Some (Inr st')"
    by (auto simp: rbind_Inr)
  have i1: "I st1" using Cons.prems(1)[of x st st1] Cons.prems(2) b by simp
  show ?case
  proof (rule Cons.IH[OF _ i1 r])
    fix y s s'
    assume "y \<in> set xs" "I s" "body y s = Some (Inr s')"
    then show "I s'" using Cons.prems(1)[of y s s'] by simp
  qed
qed

lemma queryInv_initial: "queryInv E initialQuery"
  by (simp add: queryInv_def initialQuery_def)

lemma addLocation_inv:
  assumes "queryInv E st" "addLocation E db v st = Inr st'"
  shows "queryInv E st'"
proof (cases "toLocation E db v")
  case (Inl e)
  with assms(2) show ?thesis by (simp add: addLocation_def)
next
  case (Inr l)
  show ?thesis
  proof (cases "makeKey E l \<in> dedupLocations st")
    case True
    with assms Inr show ?thesis by (simp add: addLocation_def Let_def)
  next
    case False
    then have st': "st' = st \<lparr> dedupLocations := insert (makeKey E l) (dedupLocations st),
                          results := results st @ [l] \<rparr>"
      using assms(2) Inr by (simp add: addLocation_def Let_def)
    have "makeKey E l \<notin> makeKey E ` set (results st)"
      using False assms(1) by (auto simp: queryInv_def)
    then show ?thesis using assms(1) unfolding st' queryInv_def by auto
  qed
qed

lemma resolveTargets_inv:
  assumes "queryInv E st" "resolveTargets E db v st = Some (Inr st')"
  shows "queryInv E st'"
proof (cases "item db v")
  case None
  with assms show ?thesis by (simp add: resolveTargets_def)
next
  case (Some ranges)
  with assms(2) have
    f: "forEach (\<lambda>element s. Some (addLocation E db element s)) ranges st = Some (Inr st')"
    by (simp add: resolveTargets_def)
  show ?thesis
  proof (rule forEach_preserves[where I = "queryInv E", OF _ assms(1) f])
    fix x s s'
    assume "queryInv E s" "Some (addLocation E db x s) = Some (Inr s')"
    then show "queryInv E s'" using addLocation_inv[of E s db x s'] by simp
  qed
qed

lemma resolveVertexTargets_inv:
  assumes "queryInv E st" "resolveVertexTargets E db edges v st = Some (Inr st')"
  shows "queryInv E st'"
proof -
  from assms(2) obtain rp where rp: "getResultPath db (vertex_id v) edges = Some rp"
    and c: "(case result rp of None \<Rightarrow> Some (Inr st)
             | Some (w, _) \<Rightarrow> resolveTargets E db w st) = Some (Inr st')"
    by (auto simp: resolveVertexTargets_def bind_eq_Some_conv)
  show ?thesis
  proof (cases "result rp")
    case None
    with c assms(1) show ?thesis by simp
  next
    case (Some wm)
    with c have "resolveTargets E db (fst wm) st = Some (Inr st')"
      by (cases wm) simp
    with assms(1) show ?thesis by (rule resolveTargets_inv)
  qed
qed

lemma expandTargets_inv:
  assumes "queryInv E st" "expandTargets E db edges m st = Some (Inr st')"
  shows "queryInv E st'"
proof (cases "matchingMonikersOf db m")
  case None
  with assms show ?thesis by (simp add: expandTargets_def)
next
  case (Some ms)
  let ?body = "\<lambda>matchingMoniker s.
              case findVerticesForMoniker db matchingMoniker of
                None \<Rightarrow> Some (Inr s)
              | Some vertices \<Rightarrow> forEach (resolveVertexTargets E db edges) vertices s"
  from assms(2) Some have f: "forEach ?body ms st = Some (Inr st')"
    by (simp add: expandTargets_def)
  show ?thesis
  proof (rule forEach_preserves[where I = "queryInv E", OF _ assms(1) f])
    fix mm s s'
    assume i: "queryInv E s" and b: "?body mm s = Some (Inr s')"
    show "queryInv E s'"
    proof (cases "findVerticesForMoniker db mm")
      case None
      with i b show ?thesis by simp
    next
      case (Some vs)
      with b have g: "forEach (resolveVertexTargets E db edges) vs s = Some (Inr s')" by simp
      show ?thesis
        by (rule forEach_preserves[where I = "queryInv E", OF _ i g])
           (rule resolveVertexTargets_inv)
    qed
  qed
qed

lemma queryInv_expand:
  "queryInv E st \<Longrightarrow> k \<notin> dedupMonikers st \<Longrightarrow>
     queryInv E (st \<lparr> dedupMonikers := insert k (dedupMonikers st),
                       expansions := expansions st @ [k] \<rparr>)"
  by (auto simp: queryInv_def)

lemma targetsOfMoniker_inv:
  assumes "queryInv E st" "targetsOfMoniker E db edges m st = Some (Inr st')"
  shows "queryInv E st'"
proof (cases "moniker_key m \<in> dedupMonikers st")
  case True
  with assms show ?thesis by (simp add: targetsOfMoniker_def)
next
  case False
  with assms(2) have "expandTargets E db edges m
       (st \<lparr> dedupMonikers := insert (moniker_key m) (dedupMonikers st),
             expansions := expansions st @ [moniker_key m] \<rparr>) = Some (Inr st')"
    by (simp add: targetsOfMoniker_def)
  with queryInv_expand[OF assms(1) False] show ?thesis by (rule expandTargets_inv)
qed

lemma findTargetsOfRange_inv:
  assumes "queryInv E st" "findTargetsOfRange E db edges r st = Some (Inr st')"
  shows "queryInv E st'"
proof -
  from assms(2) obtain rp where rp: "getResultPath db (vertex_id r) edges = Some rp"
    and c: "(case result rp of
           None \<Rightarrow> Some (Inr st)
         | Some (v, _) \<Rightarrow>
             (let monikers = (case getMostSpecificMoniker rp of
                                Some m \<Rightarrow> [m] | None \<Rightarrow> [])
              in rbind (resolveTargets E db v st)
                   (forEach (targetsOfMoniker E db edges) monikers))) = Some (Inr st')"
    by (auto simp: findTargetsOfRange_def bind_eq_Some_conv)
  show ?thesis
  proof (cases "result rp")
    case None
    with c assms(1) show ?thesis by simp
  next
    case (Some vm)
    obtain v m where vm: "vm = (v, m)" by (cases vm)
    from c Some vm obtain st1 ms where
      a: "resolveTargets E db v st = Some (Inr st1)"
      and b: "forEach (targetsOfMoniker E db edges) ms st1 = Some (Inr st')"
      by (auto simp: rbind_Inr Let_def)
    have i1: "queryInv E st1" using assms(1) a by (rule resolveTargets_inv)
    show ?thesis
      by (rule forEach_preserves[where I = "queryInv E", OF _ i1 b])
         (rule targetsOfMoniker_inv)
  qed
qed

lemma findTargetsState_inv:
  assumes "findTargetsState E db u p edges = Some (Inr (Some st))"
  shows "queryInv E st"
proof -
  from assms obtain fname where n: "normalizeUri E (Some u) = Some fname"
    by (cases "normalizeUri E (Some u)") (auto simp: findTargetsState_def)
  with assms obtain ranges where "findRangesFromPosition db fname p = Some ranges"
    by (cases "findRangesFromPosition db fname p") (auto simp: findTargetsState_def)
  with assms n have
    f: "forEach (findTargetsOfRange E db edges) ranges initialQuery = Some (Inr st)"
    by (auto simp: findTargetsState_def rbind_Inr)
  show ?thesis
    by (rule forEach_preserves[where I = "queryInv E", OF _ queryInv_initial f])
       (rule findTargetsOfRange_inv)
qed

lemma map_sum_Inr: "map_sum id g x = Inr y \<longleftrightarrow> (\<exists>z. x = Inr z \<and> y = g z)"
  by (cases x) auto

lemma referenceStep_inv:
  assumes inv: "queryInv E st"
    and IH: "\<And>ts sm. f E db inc ts st ms = Some (Inr sm) \<Longrightarrow> queryInv E (fst sm)"
    and step: "(case target of
               Tagged t r \<Rightarrow>
                 (if t = p_declarations \<and> inc
                  then Some (map_sum id (\<lambda>s. (s, ms)) (addLocation E db (Bare r) st))
                  else if t = p_definitions \<and> inc
                  then Some (map_sum id (\<lambda>s. (s, ms)) (addLocation E db (Bare r) st))
                  else if t = p_references
                  then Some (map_sum id (\<lambda>s. (s, ms)) (addLocation E db (Bare r) st))
                  else if t = p_referenceResults
                  then (case item db r of
                          None \<Rightarrow> Some (Inr (st, ms))
                        | Some ts \<Rightarrow> f E db inc ts st ms)
                  else if t = p_referenceLinks
                  then Some (Inr (st, ms @ [r]))
                  else Some (Inr (st, ms)))
             | Bare r \<Rightarrow>
                 (if is_range r
                  then Some (map_sum id (\<lambda>s. (s, ms)) (addLocation E db (Bare r) st))
                  else Some (Inr (st, ms)))) = Some (Inr sm1)"
  shows "queryInv E (fst sm1)"
proof -
  have add: "queryInv E (fst sm1)"
    if "Some (map_sum id (\<lambda>s. (s, ms)) (addLocation E db (Bare r) st)) = Some (Inr sm1)" for r
  proof -
    from that obtain z where "addLocation E db (Bare r) st = Inr z" "sm1 = (z, ms)"
      by (auto simp: map_sum_Inr)
    then show ?thesis using addLocation_inv[OF inv] by simp
  qed
  show ?thesis
  proof (cases target)
    case (Bare r)
    with step add[of r] inv show ?thesis by (cases "is_range r") auto
  next
    case (Tagged t r)
    show ?thesis
    proof (cases t)
      case p_declarations
      with step Tagged add[of r] inv show ?thesis by (cases inc) auto
    next
      case p_definitions
      with step Tagged add[of r] inv show ?thesis by (cases inc) auto
    next
      case p_references
      with step Tagged add[of r] inv show ?thesis by auto
    next
      case p_referenceResults
      with step Tagged IH inv show ?thesis by (cases "item db r") auto
    next
      case p_referenceLinks
      with step Tagged inv show ?thesis by auto
    qed
  qed
qed

lemma resolveReferenceTargets_inv_aux:
  assumes "resolveReferenceTargets E db inc targets st ms = Some y"
  shows "queryInv E st \<longrightarrow> (\<forall>sm. y = Inr sm \<longrightarrow> queryInv E (fst sm))"
proof (rule resolveReferenceTargets.raw_induct
    [where P = "\<lambda>E db inc targets st ms y.
                  queryInv E st \<longrightarrow> (\<forall>sm. y = Inr sm \<longrightarrow> queryInv E (fst sm))",
     OF _ assms], goal_cases)
  case (1 f E db inc targets st ms y)
  show ?case
  proof (intro impI allI)
    fix sm
    assume inv: "queryInv E st" and y: "y = Inr sm"
    show "queryInv E (fst sm)"
    proof (cases targets)
      case Nil
      with 1(2) y inv show ?thesis by auto
    next
      case (Cons target rest)
      with 1(2) y obtain sm1 where
        s1: "(case target of
               Tagged t r \<Rightarrow>
                 (if t = p_declarations \<and> inc
                  then Some (map_sum id (\<lambda>s. (s, ms)) (addLocation E db (Bare r) st))
                  else if t = p_definitions \<and> inc
                  then Some (map_sum id (\<lambda>s. (s, ms)) (addLocation E db (Bare r) st))
                  else if t = p_references
                  then Some (map_sum id (\<lambda>s. (s, ms)) (addLocation E db (Bare r) st))
                  else if t = p_referenceResults
                  then (case item db r of
                          None \<Rightarrow> Some (Inr (st, ms))
                        | Some ts \<Rightarrow> f E db inc ts st ms)
                  else if t = p_referenceLinks
                  then Some (Inr (st, ms @ [r]))
                  else Some (Inr (st, ms)))
             | Bare r \<Rightarrow>
                 (if is_range r
                  then Some (map_sum id (\<lambda>s. (s, ms)) (addLocation E db (Bare r) st))
                  else Some (Inr (st, ms)))) = Some (Inr sm1)"
        and s2: "f E db inc rest (fst sm1) (snd sm1) = Some (Inr sm)"
        by (auto simp: rbind_Inr)
      have "queryInv E (fst sm1)"
      proof (rule referenceStep_inv[where f = f and E = E and db = db and inc = inc
            and st = st and ms = ms and target = target and ?sm1.0 = sm1, OF inv _ s1])
        fix ts sm'
        assume "f E db inc ts st ms = Some (Inr sm')"
        from 1(1)[OF this] inv show "queryInv E (fst sm')" by simp
      qed
      with 1(1)[OF s2] show ?thesis by simp
    qed
  qed
qed

lemma resolveReferenceTargets_inv:
  "queryInv E st \<Longrightarrow> resolveReferenceTargets E db inc targets st ms = Some (Inr sm)
     \<Longrightarrow> queryInv E (fst sm)"
  using resolveReferenceTargets_inv_aux by blast

lemma resolveReferenceResult_inv:
  assumes "queryInv E (fst sm)" "resolveReferenceResult E db inc v sm = Some (Inr sm')"
  shows "queryInv E (fst sm')"
proof (cases "item db v")
  case None
  with assms show ?thesis by (simp add: resolveReferenceResult_def)
next
  case (Some ts)
  with assms(2) have "resolveReferenceTargets E db inc ts (fst sm) (snd sm) = Some (Inr sm')"
    by (simp add: resolveReferenceResult_def)
  with assms(1) show ?thesis by (rule resolveReferenceTargets_inv)
qed

lemma resolveVertexReferences_inv:
  assumes "queryInv E (fst sm)" "resolveVertexReferences E db inc v sm = Some (Inr sm')"
  shows "queryInv E (fst sm')"
proof -
  from assms(2) obtain rp :: ResultPath where
    c: "(case result rp of None \<Rightarrow> Some (Inr sm)
         | Some (w, _) \<Rightarrow> resolveReferenceResult E db inc w sm) = Some (Inr sm')"
    by (auto simp: resolveVertexReferences_def bind_eq_Some_conv)
  show ?thesis
  proof (cases "result rp")
    case None
    with c assms(1) show ?thesis by simp
  next
    case (Some wm)
    with c have "resolveReferenceResult E db inc (fst wm) sm = Some (Inr sm')"
      by (cases wm) simp
    with assms(1) show ?thesis by (rule resolveReferenceResult_inv)
  qed
qed

lemma expandReferences_inv:
  assumes "queryInv E (fst sm)" "expandReferences E db inc m sm = Some (Inr sm')"
  shows "queryInv E (fst sm')"
proof (cases "matchingMonikersOf db m")
  case None
  with assms show ?thesis by (simp add: expandReferences_def)
next
  case (Some ms)
  let ?body = "\<lambda>matchingMoniker s.
              case findVerticesForMoniker db matchingMoniker of
                None \<Rightarrow> Some (Inr s)
              | Some vertices \<Rightarrow> forEach (resolveVertexReferences E db inc) vertices s"
  from assms(2) Some have f: "forEach ?body ms sm = Some (Inr sm')"
    by (simp add: expandReferences_def)
  show ?thesis
  proof (rule forEach_preserves[where I = "\<lambda>s. queryInv E (fst s)", OF _ assms(1) f])
    fix mm s s'
    assume i: "queryInv E (fst s)" and b: "?body mm s = Some (Inr s')"
    show "queryInv E (fst s')"
    proof (cases "findVerticesForMoniker db mm")
      case None
      with i b show ?thesis by simp
    next
      case (Some vs)
      with b have g: "forEach (resolveVertexReferences E db inc) vs s = Some (Inr s')" by simp
      show ?thesis
        by (rule forEach_preserves[where I = "\<lambda>s. queryInv E (fst s)", OF _ i g])
           (rule resolveVertexReferences_inv)
    qed
  qed
qed

lemma referencesOfMonikers_inv_aux:
  assumes "referencesOfMonikers E db inc i st ms = Some y"
  shows "queryInv E st \<longrightarrow> (\<forall>sm. y = Inr sm \<longrightarrow> queryInv E (fst sm))"
proof (rule referencesOfMonikers.raw_induct
    [where P = "\<lambda>E db inc i st ms y.
                  queryInv E st \<longrightarrow> (\<forall>sm. y = Inr sm \<longrightarrow> queryInv E (fst sm))",
     OF _ assms], goal_cases)
  case (1 f E db inc i st ms y)
  show ?case
  proof (intro impI allI)
    fix sm
    assume inv: "queryInv E st" and y: "y = Inr sm"
    show "queryInv E (fst sm)"
    proof (cases "i < length ms")
      case False
      with 1(2) y inv show ?thesis by auto
    next
      case True
      show ?thesis
      proof (cases "moniker_key (ms ! i) \<in> dedupMonikers st")
        case k: True
        with 1(2) True y have "f E db inc (Suc i) st ms = Some (Inr sm)" by simp
        from 1(1)[OF this] inv show ?thesis by simp
      next
        case k: False
        let ?st = "st \<lparr> dedupMonikers := insert (moniker_key (ms ! i)) (dedupMonikers st),
                        expansions := expansions st @ [moniker_key (ms ! i)] \<rparr>"
        from 1(2) True k y obtain sm1 where
          e: "expandReferences E db inc (ms ! i) (?st, ms) = Some (Inr sm1)"
          and r: "f E db inc (Suc i) (fst sm1) (snd sm1) = Some (Inr sm)"
          by (auto simp: rbind_Inr)
        have "queryInv E (fst (?st, ms))" using queryInv_expand[OF inv k] by simp
        then have "queryInv E (fst sm1)" using e by (rule expandReferences_inv)
        with 1(1)[OF r] show ?thesis by simp
      qed
    qed
  qed
qed

lemma referencesOfMonikers_inv:
  "queryInv E st \<Longrightarrow> referencesOfMonikers E db inc i st ms = Some (Inr sm)
     \<Longrightarrow> queryInv E (fst sm)"
  using referencesOfMonikers_inv_aux by blast

lemma findReferences_inv:
  assumes "queryInv E st" "findReferences E db inc r st = Some (Inr st')"
  shows "queryInv E st'"
proof -
  from assms(2) obtain rp :: ResultPath where
    c: "(case result rp of
           None \<Rightarrow> Some (Inr st)
         | Some (v, _) \<Rightarrow>
             (let monikers = (case getMostSpecificMoniker rp of
                                Some m \<Rightarrow> [m] | None \<Rightarrow> [])
              in rbind (resolveReferenceResult E db inc v (st, monikers))
                   (\<lambda>sm. rbind
                      (referencesOfMonikers E db inc 0 (fst sm) (snd sm))
                      (\<lambda>sm'. Some (Inr (fst sm')))))) = Some (Inr st')"
    by (auto simp: findReferences_def bind_eq_Some_conv)
  show ?thesis
  proof (cases "result rp")
    case None
    with c assms(1) show ?thesis by simp
  next
    case (Some vm)
    obtain v m where vm: "vm = (v, m)" by (cases vm)
    from c Some vm obtain ms sm1 sm2 where
      a: "resolveReferenceResult E db inc v (st, ms) = Some (Inr sm1)"
      and b: "referencesOfMonikers E db inc 0 (fst sm1) (snd sm1) = Some (Inr sm2)"
      and d: "st' = fst sm2"
      by (auto simp: rbind_Inr Let_def)
    have "queryInv E (fst (st, ms))" using assms(1) by simp
    then have "queryInv E (fst sm1)" using a by (rule resolveReferenceResult_inv)
    then have "queryInv E (fst sm2)" using b by (rule referencesOfMonikers_inv)
    with d show ?thesis by simp
  qed
qed

lemma referencesState_inv:
  assumes "referencesState E db u p inc = Some (Inr (Some st))"
  shows "queryInv E st"
proof -
  from assms obtain fname where n: "normalizeUri E (Some u) = Some fname"
    by (cases "normalizeUri E (Some u)") (auto simp: referencesState_def)
  with assms obtain ranges where "findRangesFromPosition db fname p = Some ranges"
    by (cases "findRangesFromPosition db fname p") (auto simp: referencesState_def)
  with assms n have f: "forEach (findReferences E db inc) ranges initialQuery = Some (Inr st)"
    by (auto simp: referencesState_def rbind_Inr)
  show ?thesis
    by (rule forEach_preserves[where I = "queryInv E", OF _ queryInv_initial f])
       (rule findReferences_inv)
qed

lemma queryInv_distinct_results: "queryInv E st \<Longrightarrow> distinct (results st)"
  unfolding queryInv_def using distinct_map by blast

section \<open>The example dump\<close>

lemma fooDump_loads: "load idealExt emptyDatabase fooDump = Inr fooExample"
  by (simp add: fooDump_def fooExample_def emptyDatabase_def idealExt_def docA_def edge1_def
      edgeN_def processMetaData_def doProcessDocument_def doProcessEdge_def processEdge_def
      fooMoniker_def fooKey_def Let_def)

lemmas foo_defs = idealExt_def docA_def fooMoniker_def fooKey_def pos_def loc_def

lemma foo_fields:
  "out_contains fooExample = [1 \<mapsto> [Range 2 (pos 0 0) (pos 0 3), Range 3 (pos 5 0) (pos 5 3)]]"
  "out_item fooExample = [6 \<mapsto> [Bare (Range 2 (pos 0 0) (pos 0 3))],
                    7 \<mapsto> [Tagged p_definitions (Range 2 (pos 0 0) (pos 0 3)),
                          Tagged p_references (Range 3 (pos 5 0) (pos 5 3))]]"
  "out_next fooExample = [2 \<mapsto> Other 4 resultSet, 3 \<mapsto> Other 4 resultSet]"
  "out_moniker fooExample = [4 \<mapsto> fooMoniker]"
  "out_definition fooExample = [4 \<mapsto> Other 6 definitionResult]"
  "out_references fooExample = [4 \<mapsto> Other 7 referenceResult]"
  "out_declaration fooExample = Map.empty"
  "in_contains fooExample = [2 \<mapsto> Document (docA 1), 3 \<mapsto> Document (docA 1)]"
  "in_moniker fooExample = [5 \<mapsto> [Other 4 resultSet]]"
  "indices_monikers fooExample = [fooKey \<mapsto> [fooMoniker]]"
  "indices_documents fooExample =
         [''file:///a.ts'' \<mapsto> \<lparr> bucket_hash = ''No content provided.'',
                                 bucket_documents = [docA 1] \<rparr>]"
  by (simp_all add: fooExample_def emptyDatabase_def)

lemma foo_path:
  "getResultPath fooExample i [4 \<mapsto> v] =
     (if i = 4 then Some \<lparr> path = [], result = Some (v, Some fooMoniker) \<rparr>
      else if i = 2 \<or> i = 3
      then Some \<lparr> path = [(i, None)], result = Some (v, Some fooMoniker) \<rparr>
      else Some \<lparr> path = [(i, None)], result = None \<rparr>)"
  "getResultPath fooExample i Map.empty =
     (if i = 2 \<or> i = 3
      then Some \<lparr> path = [(i, None), (4, Some fooMoniker)], result = None \<rparr>
      else Some \<lparr> path = [(i, if i = 4 then Some fooMoniker else None)], result = None \<rparr>)"
  by (simp_all add: getResultPath_def getResultPathFrom.simps foo_fields)

lemma foo_ranges:
  "findRangesFromPosition fooExample ''file:///a.ts'' (pos 0 0) = Some [Range 2 (pos 0 0) (pos 0 3)]"
  "findRangesFromPosition fooExample ''file:///a.ts'' (pos 5 0) = Some [Range 3 (pos 5 0) (pos 5 3)]"
  "findRangesFromPosition fooExample ''file:///a.ts'' (pos 9 9) = None"
  by (simp_all add: findRangesFromPosition_def containsPosition_def containsRange_def
      foo_fields foo_defs)

lemmas query_defs = findTargetsOfRange_def getMostSpecificMoniker_def rbind_def
  resolveTargets_def addLocation_def toLocation_def makeKey_def targetsOfMoniker_def
  expandTargets_def matchingMonikersOf_def findVerticesForMoniker_def
  resolveVertexTargets_def initialQuery_def Let_def

lemma foo_normal: "normalizeUri idealExt (Some ''file:///a.ts'') = Some ''file:///a.ts''"
  by (simp add: idealExt_def)

lemma foo_definitions:
  "definitions idealExt fooExample ''file:///a.ts'' (pos 0 0)
     = Some (Inr (Some (Many [loc ''file:///a.ts'' (pos 0 0) (pos 0 3)])))"
  "definitions idealExt fooExample ''file:///a.ts'' (pos 5 0)
     = Some (Inr (Some (Many [loc ''file:///a.ts'' (pos 0 0) (pos 0 3)])))"
  "definitions idealExt fooExample ''file:///a.ts'' (pos 9 9) = Some (Inr None)"
  unfolding definitions_def findTargets_def findTargetsState_def foo_normal option.case foo_ranges
  by (simp_all add: foo_fields foo_path query_defs foo_defs)

lemma foo_declarations:
  "declarations idealExt fooExample ''file:///a.ts'' (pos 0 0) = Some (Inr (Some (Many [])))"
  unfolding declarations_def findTargets_def findTargetsState_def foo_normal option.case foo_ranges
  by (simp add: foo_fields foo_path query_defs foo_defs)

lemma foo_allDefinitions:
  "allDefinitions idealExt fooExample ''file:///a.ts''
     = Some (Inr (Some [loc ''file:///a.ts'' (pos 0 0) (pos 0 3),
                         loc ''file:///a.ts'' (pos 0 0) (pos 0 3)]))"
proof -
  have k: "keepsMoniker (Some fooMoniker) = Some True"
    by (simp add: keepsMoniker_def fooMoniker_def endsWith_def includes_str_def
        suffix_def sublist_def) 
  show ?thesis
    unfolding allDefinitions_def foo_normal option.case
    by (simp add: foo_fields foo_path getMostSpecificMoniker_def k foo_definitions rbind_def
        docA_def loc_def Let_def)
qed

lemmas ref_defs = findReferences_def resolveReferenceResult_def resolveReferenceTargets.simps
  referencesOfMonikers.simps expandReferences_def resolveVertexReferences_def
  getMostSpecificMoniker_def rbind_def addLocation_def toLocation_def makeKey_def
  matchingMonikersOf_def findVerticesForMoniker_def initialQuery_def Let_def

lemma replicate_i:
  "replicate 3 (CHR ''i'') = ''iii''" "replicate 5 (CHR ''i'') = ''iiiii''"
  by (simp_all add: numeral_eq_Suc)

lemma foo_referencesState:
  "referencesState idealExt fooExample ''file:///a.ts'' (pos 5 0) True
     = Some (Inr (Some \<lparr> results = [loc ''file:///a.ts'' (pos 0 0) (pos 0 3),
                                       loc ''file:///a.ts'' (pos 5 0) (pos 5 3)],
                           dedupLocations = {'',,,iii,ufile:///a.ts'',
                                             ''iiiii,,iiiii,iii,ufile:///a.ts''},
                           dedupMonikers = {Some fooKey},
                           expansions = [Some fooKey] \<rparr>))"
  unfolding referencesState_def foo_normal option.case foo_ranges
  by (simp add: foo_fields foo_path ref_defs foo_defs replicate_i insert_commute)


lemma foo_references:
  "references idealExt fooExample ''file:///a.ts'' (pos 5 0) True
     = Some (Inr (Some [loc ''file:///a.ts'' (pos 0 0) (pos 0 3),
                         loc ''file:///a.ts'' (pos 5 0) (pos 5 3)]))"
  unfolding references_def foo_referencesState by (simp add: rbind_def)

section \<open>Deduplication of locations\<close>

text \<open>
  Claim C2, as amended.  The list returned by \<open>declarations\<close>, \<open>definitions\<close> or
  \<open>references\<close> never contains two locations with the same URI and the same range.
  (\<open>allDefinitions\<close> is left out: it concatenates the results of one \<open>definitions\<close>
  query per range and can return a location twice.)
\<close>

theorem queries_never_repeat_a_location:
  "(declarations E db u p = Some (Inr (Some (Many ls))) \<longrightarrow> distinct ls)
   \<and> (definitions E db u p = Some (Inr (Some (Many ls))) \<longrightarrow> distinct ls)
   \<and> (references E db u p inc = Some (Inr (Some ls)) \<longrightarrow> distinct ls)"
proof -
  have t: "distinct ls" if "findTargets E db u p edges = Some (Inr (Some (Many ls)))" for edges
  proof -
    from that obtain st where "findTargetsState E db u p edges = Some (Inr (Some st))"
      and "ls = results st"
      by (auto simp: findTargets_def rbind_Inr)
    then show ?thesis using findTargetsState_inv queryInv_distinct_results by blast
  qed
  have r: "distinct ls" if "references E db u p inc = Some (Inr (Some ls))"
  proof -
    from that obtain st where "referencesState E db u p inc = Some (Inr (Some st))"
      and "ls = results st"
      by (auto simp: references_def rbind_Inr)
    then show ?thesis using referencesState_inv queryInv_distinct_results by blast
  qed
  show ?thesis using t r by (simp add: declarations_def definitions_def)
qed

theorem queries_never_repeat_a_location_witness:
  "declarations idealExt fooExample ''file:///a.ts'' (pos 0 0) = Some (Inr (Some (Many [])))
   \<and> definitions idealExt fooExample ''file:///a.ts'' (pos 0 0)
       = Some (Inr (Some (Many [loc ''file:///a.ts'' (pos 0 0) (pos 0 3)])))
   \<and> references idealExt fooExample ''file:///a.ts'' (pos 5 0) True
       = Some (Inr (Some [loc ''file:///a.ts'' (pos 0 0) (pos 0 3),
                           loc ''file:///a.ts'' (pos 5 0) (pos 5 3)]))
   \<and> distinct [loc ''file:///a.ts'' (pos 0 0) (pos 0 3), loc ''file:///a.ts'' (pos 5 0) (pos 5 3)]"
proof -
  have "distinct [loc ''file:///a.ts'' (pos 0 0) (pos 0 3), loc ''file:///a.ts'' (pos 5 0) (pos 5 3)]"
    using queries_never_repeat_a_location
      [of idealExt fooExample "''file:///a.ts''" "pos 5 0"
          "[loc ''file:///a.ts'' (pos 0 0) (pos 0 3), loc ''file:///a.ts'' (pos 5 0) (pos 5 3)]"
          True]
      foo_references
    by blast
  then show ?thesis using foo_declarations foo_definitions(1) foo_references by blast
qed

text \<open>
  The claim as it stands fails for \<open>allDefinitions\<close>: in the example dump the ranges 2 and
  3 both resolve to the exported moniker \<open>foo().\<close>, and the definition of \<open>foo\<close> is
  returned once for each.
\<close>

theorem allDefinitions_repeats_a_location:
  "load idealExt emptyDatabase fooDump = Inr fooExample
   \<and> allDefinitions idealExt fooExample ''file:///a.ts''
       = Some (Inr (Some [loc ''file:///a.ts'' (pos 0 0) (pos 0 3),
                           loc ''file:///a.ts'' (pos 0 0) (pos 0 3)]))
   \<and> \<not> distinct [loc ''file:///a.ts'' (pos 0 0) (pos 0 3),
                    loc ''file:///a.ts'' (pos 0 0) (pos 0 3)]"
  using fooDump_loads foo_allDefinitions by simp

section \<open>Expansion of moniker keys\<close>



section \<open>The shape of a query result\<close>








section \<open>The locations of allDefinitions\<close>












section \<open>Unknown labels\<close>

lemma load_append:
  "load E db (xs @ ys) = (case load E db xs of Inl e \<Rightarrow> Inl e | Inr db' \<Rightarrow> load E db' ys)"
proof (induction xs arbitrary: db)
  case Nil
  show ?case by simp
next
  case (Cons x xs)
  show ?case by (cases x) (auto simp: Cons.IH split: sum.splits)
qed

lemma storeEdge_unhandled: "\<not> handledEdgeLabel l \<Longrightarrow> storeEdge db l v w prop = db"
  unfolding handledEdgeLabel_def by (cases l) auto

lemma doProcessEdge_unhandled:
  "\<not> handledEdgeLabel l \<Longrightarrow>
     doProcessEdge db l a b prop =
       (if vertices_all db a \<noteq> None \<and> vertices_all db b \<noteq> None then Inr db
        else Inl InvariantFailed)"
  unfolding doProcessEdge_def by (auto simp: storeEdge_unhandled split: option.splits)

lemma doProcessEdges_unhandled:
  "\<not> handledEdgeLabel l \<Longrightarrow>
     doProcessEdges db l a bs prop =
       (if bs = [] \<or> (vertices_all db a \<noteq> None \<and> (\<forall>b\<in>set bs. vertices_all db b \<noteq> None))
        then Inr db else Inl InvariantFailed)"
  by (induction bs) (auto simp: doProcessEdge_unhandled)

lemma processEdge_unhandled:
  "\<not> handledEdgeLabel (edge_label e) \<Longrightarrow>
     processEdge db e = (if endpointsKnown db e then Inr db else Inl InvariantFailed)"
  unfolding processEdge_def endpointsKnown_def
  by (auto simp: doProcessEdge_unhandled doProcessEdges_unhandled Let_def list_all_iff
      split: option.splits)

text \<open>
  Claim C3, as amended.  A vertex record whose label is outside the set that
  \<open>processVertex\<close> recognises fails the load at that record with an error.  An edge
  record whose label \<open>doProcessEdge\<close> does not handle is not an error: it is skipped, the
  database is unchanged and the load goes on; such an edge fails the load only when one
  of the vertices it names is unknown.
\<close>

theorem unknown_labels:
  "(load E db pre = Inr db' \<and> \<not> recognizedVertexLabel l \<longrightarrow>
      load E db (pre @ VertexElement (Other i l) # rest) = Inl UnexpectedVertexLabel)
   \<and> (load E db pre = Inr db' \<and> \<not> handledEdgeLabel (edge_label e) \<longrightarrow>
      load E db (pre @ EdgeElement e # rest) =
        (if endpointsKnown db' e then load E db' rest else Inl InvariantFailed))"
  by (auto simp: load_append recognizedVertexLabel_def processEdge_unhandled)

lemma twoVertices_loads:
  "load idealExt emptyDatabase
     [VertexElement (Range 1 (pos 0 0) (pos 0 3)), VertexElement (Other 2 resultSet)]
   = Inr twoVertices"
  by (simp add: twoVertices_def emptyDatabase_def)

theorem unknown_labels_witness:
  "load idealExt emptyDatabase
     [VertexElement (Range 1 (pos 0 0) (pos 0 3)), VertexElement (Other 2 resultSet)]
     = Inr twoVertices
   \<and> \<not> recognizedVertexLabel project
   \<and> load idealExt emptyDatabase
       ([VertexElement (Range 1 (pos 0 0) (pos 0 3)), VertexElement (Other 2 resultSet)]
        @ VertexElement (Other 3 project) # [VertexElement (Other 4 resultSet)])
       = Inl UnexpectedVertexLabel
   \<and> \<not> handledEdgeLabel e_belongsTo
   \<and> endpointsKnown twoVertices
        \<lparr> edge_label = e_belongsTo, outV = 1, inV = Some 2, inVs = None,
          property = NoProperty \<rparr>
   \<and> load idealExt emptyDatabase
       ([VertexElement (Range 1 (pos 0 0) (pos 0 3)), VertexElement (Other 2 resultSet)]
        @ EdgeElement \<lparr> edge_label = e_belongsTo, outV = 1, inV = Some 2, inVs = None,
                        property = NoProperty \<rparr> # [])
       = Inr twoVertices"
proof -
  let ?pre = "[VertexElement (Range 1 (pos 0 0) (pos 0 3)), VertexElement (Other 2 resultSet)]"
  let ?e = "\<lparr> edge_label = e_belongsTo, outV = 1, inV = Some 2, inVs = None,
              property = NoProperty \<rparr>"
  have r: "\<not> recognizedVertexLabel project" by (simp add: recognizedVertexLabel_def)
  have h: "\<not> handledEdgeLabel (edge_label ?e)" by (simp add: handledEdgeLabel_def)
  have k: "endpointsKnown twoVertices ?e"
    by (simp add: endpointsKnown_def twoVertices_def emptyDatabase_def)
  have v: "load idealExt emptyDatabase
             (?pre @ VertexElement (Other 3 project) # [VertexElement (Other 4 resultSet)])
           = Inl UnexpectedVertexLabel"
    using unknown_labels[of idealExt emptyDatabase ?pre twoVertices project 3
        "[VertexElement (Other 4 resultSet)]" ?e] twoVertices_loads r
    by blast
  have e: "load idealExt emptyDatabase (?pre @ EdgeElement ?e # []) = Inr twoVertices"
    using unknown_labels[of idealExt emptyDatabase ?pre twoVertices project 3 "[]" ?e]
      twoVertices_loads h k
    by simp
  show ?thesis using twoVertices_loads r v h k e by simp
qed

text \<open>
  The claim as it stands fails for edges: an edge with an unknown label between two
  known vertices does not fail the load.
\<close>

theorem unknown_edge_label_counterexample:
  "load idealExt emptyDatabase
     [VertexElement (Range 1 (pos 0 0) (pos 0 3)), VertexElement (Other 2 resultSet),
      edge1 (e_unlisted ''bogus'') 1 2]
   = load idealExt emptyDatabase
       [VertexElement (Range 1 (pos 0 0) (pos 0 3)), VertexElement (Other 2 resultSet)]
   \<and> \<not> isl (load idealExt emptyDatabase
       [VertexElement (Range 1 (pos 0 0) (pos 0 3)), VertexElement (Other 2 resultSet),
        edge1 (e_unlisted ''bogus'') 1 2])"
  by (simp add: edge1_def processEdge_def doProcessEdge_def)

section \<open>Relation edges\<close>

text \<open>
  The relation labels that \<open>doProcessEdge\<close> handles store the target in the map of the
  relation, under the id of the source.
\<close>

lemma storeEdge_relation_maps:
  "out_definition (storeEdge db e_textDocument_definition v w prop) (vertex_id v) = Some w"
  "out_references (storeEdge db e_textDocument_references v w prop) (vertex_id v) = Some w"
  "out_typeDefinition (storeEdge db e_textDocument_typeDefinition v w prop) (vertex_id v) = Some w"
  "out_documentSymbol (storeEdge db e_textDocument_documentSymbol v w prop) (vertex_id v) = Some w"
  "out_foldingRange (storeEdge db e_textDocument_foldingRange v w prop) (vertex_id v) = Some w"
  "out_documentLink (storeEdge db e_textDocument_documentLink v w prop) (vertex_id v) = Some w"
  "out_diagnostic (storeEdge db e_textDocument_diagnostic v w prop) (vertex_id v) = Some w"
  "out_hover (storeEdge db e_textDocument_hover v w prop) (vertex_id v) = Some w"
  by simp_all

text \<open>
  No edge is stored in the maps of the declaration and implementation relations, and no
  vertex changes them: after any load they are empty.
\<close>

lemma storeEdge_declaration: "out_declaration (storeEdge db l v w prop) = out_declaration db"
  "out_implementation (storeEdge db l v w prop) = out_implementation db"
  by (cases l; simp split: EdgeProperty.splits)+

lemma doProcessEdge_declaration:
  "doProcessEdge db l a b prop = Inr db' \<Longrightarrow>
     out_declaration db' = out_declaration db \<and> out_implementation db' = out_implementation db"
  unfolding doProcessEdge_def by (auto simp: storeEdge_declaration split: option.splits)

lemma doProcessEdges_declaration:
  "doProcessEdges db l a bs prop = Inr db' \<Longrightarrow>
     out_declaration db' = out_declaration db \<and> out_implementation db' = out_implementation db"
proof (induction bs arbitrary: db)
  case Nil
  then show ?case by simp
next
  case (Cons b bs)
  then obtain db1 where a: "doProcessEdge db l a b prop = Inr db1"
    and r: "doProcessEdges db1 l a bs prop = Inr db'"
    by (auto split: sum.splits)
  from doProcessEdge_declaration[OF a] Cons.IH[OF r] show ?case by simp
qed

lemma processEdge_declaration:
  "processEdge db e = Inr db' \<Longrightarrow>
     out_declaration db' = out_declaration db \<and> out_implementation db' = out_implementation db"
  unfolding processEdge_def
  by (auto simp: Let_def split: option.splits
      dest: doProcessEdge_declaration doProcessEdges_declaration)

lemma processVertex_declaration:
  "processVertex E db v = Inr db' \<Longrightarrow>
     out_declaration db' = out_declaration db \<and> out_implementation db' = out_implementation db"
  by (cases v)
     (auto simp: processMetaData_def doProcessDocument_def Let_def
        split: if_splits option.splits)

lemma load_declaration:
  "load E db dump = Inr db' \<Longrightarrow>
     out_declaration db' = out_declaration db \<and> out_implementation db' = out_implementation db"
proof (induction dump arbitrary: db)
  case Nil
  then show ?case by simp
next
  case (Cons x dump)
  show ?case
  proof (cases x)
    case (VertexElement v)
    with Cons.prems obtain db1 where a: "processVertex E db v = Inr db1"
      and r: "load E db1 dump = Inr db'"
      by (auto split: sum.splits)
    from processVertex_declaration[OF a] Cons.IH[OF r] show ?thesis by simp
  next
    case (EdgeElement e)
    with Cons.prems obtain db1 where a: "processEdge db e = Inr db1"
      and r: "load E db1 dump = Inr db'"
      by (auto split: sum.splits)
    from processEdge_declaration[OF a] Cons.IH[OF r] show ?thesis by simp
  next
    case OtherElement
    with Cons.prems show ?thesis by simp
  qed
qed

lemma declaration_maps_stay_empty:
  "load E emptyDatabase dump = Inr db \<Longrightarrow>
     out_declaration db = Map.empty \<and> out_implementation db = Map.empty"
  using load_declaration[of E emptyDatabase dump db] by (simp add: emptyDatabase_def)

lemma declarationDump_fails: "load idealExt emptyDatabase declarationDump = Inl UnexpectedVertexLabel"
  by (simp add: declarationDump_def edge1_def edgeN_def processEdge_def doProcessEdge_def
      doProcessDocument_def Let_def docA_def idealExt_def)

text \<open>
  Claim C1 at a declaration edge.  The dump with a declaration result does not load: the
  vertex label is refused.  With the target labelled as a definition result the dump
  loads, but the declaration edge from the range 2 leaves the declaration map without an
  entry for 2, and the \<open>declarations\<close> query at the range finds nothing; the same dump
  with a definition edge puts the target in the definition map, and \<open>definitions\<close> finds
  the location.
\<close>

theorem declaration_edge_is_dropped:
  "load idealExt emptyDatabase declarationDump = Inl UnexpectedVertexLabel
   \<and> (case load idealExt emptyDatabase (relationDump e_textDocument_declaration) of
        Inl e \<Rightarrow> False
      | Inr db \<Rightarrow>
          out_declaration db 2 = None
          \<and> declarations idealExt db ''file:///a.ts'' (pos 0 0) = Some (Inr (Some (Many []))))
   \<and> (case load idealExt emptyDatabase (relationDump e_textDocument_definition) of
        Inl e \<Rightarrow> False
      | Inr db \<Rightarrow>
          out_definition db 2 = Some (Other 3 definitionResult)
          \<and> definitions idealExt db ''file:///a.ts'' (pos 0 0)
              = Some (Inr (Some (Many [loc ''file:///a.ts'' (pos 0 0) (pos 0 3)]))))"
proof -
  have a: "load idealExt emptyDatabase (relationDump e_textDocument_declaration)
     = Inr (emptyDatabase \<lparr>
         vertices_all := [1 \<mapsto> Document (docA 1), 2 \<mapsto> Range 2 (pos 0 0) (pos 0 3),
                          3 \<mapsto> Other 3 definitionResult],
         vertices_documents := [1 \<mapsto> Document (docA 1)],
         vertices_ranges := [2 \<mapsto> Range 2 (pos 0 0) (pos 0 3)],
         out_contains := [1 \<mapsto> [Range 2 (pos 0 0) (pos 0 3)]],
         out_item := [3 \<mapsto> [Bare (Range 2 (pos 0 0) (pos 0 3))]],
         in_contains := [2 \<mapsto> Document (docA 1)],
         indices_contents := [''No content provided.'' \<mapsto> ''No content provided.''],
         indices_documents :=
           [''file:///a.ts'' \<mapsto> \<lparr> bucket_hash = ''No content provided.'',
                                   bucket_documents = [docA 1] \<rparr>] \<rparr>)"
    by (simp add: relationDump_def emptyDatabase_def idealExt_def docA_def edge1_def
        edgeN_def doProcessDocument_def doProcessEdge_def processEdge_def Let_def)
  have b: "load idealExt emptyDatabase (relationDump e_textDocument_definition)
     = Inr (emptyDatabase \<lparr>
         vertices_all := [1 \<mapsto> Document (docA 1), 2 \<mapsto> Range 2 (pos 0 0) (pos 0 3),
                          3 \<mapsto> Other 3 definitionResult],
         vertices_documents := [1 \<mapsto> Document (docA 1)],
         vertices_ranges := [2 \<mapsto> Range 2 (pos 0 0) (pos 0 3)],
         out_contains := [1 \<mapsto> [Range 2 (pos 0 0) (pos 0 3)]],
         out_item := [3 \<mapsto> [Bare (Range 2 (pos 0 0) (pos 0 3))]],
         out_definition := [2 \<mapsto> Other 3 definitionResult],
         in_contains := [2 \<mapsto> Document (docA 1)],
         indices_contents := [''No content provided.'' \<mapsto> ''No content provided.''],
         indices_documents :=
           [''file:///a.ts'' \<mapsto> \<lparr> bucket_hash = ''No content provided.'',
                                   bucket_documents = [docA 1] \<rparr>] \<rparr>)"
    by (simp add: relationDump_def emptyDatabase_def idealExt_def docA_def edge1_def
        edgeN_def doProcessDocument_def doProcessEdge_def processEdge_def Let_def)
  have c: "(case load idealExt emptyDatabase (relationDump e_textDocument_declaration) of
        Inl e \<Rightarrow> False
      | Inr db \<Rightarrow>
          out_declaration db 2 = None
          \<and> declarations idealExt db ''file:///a.ts'' (pos 0 0) = Some (Inr (Some (Many []))))"
    unfolding a sum.case
    by (simp add: declarations_def findTargets_def
        findTargetsState_def findRangesFromPosition_def containsPosition_def
        getResultPath_def getResultPathFrom.simps query_defs emptyDatabase_def
        idealExt_def docA_def loc_def pos_def)
  have d: "(case load idealExt emptyDatabase (relationDump e_textDocument_definition) of
        Inl e \<Rightarrow> False
      | Inr db \<Rightarrow>
          out_definition db 2 = Some (Other 3 definitionResult)
          \<and> definitions idealExt db ''file:///a.ts'' (pos 0 0)
              = Some (Inr (Some (Many [loc ''file:///a.ts'' (pos 0 0) (pos 0 3)]))))"
    unfolding b sum.case
    by (simp add: definitions_def findTargets_def
        findTargetsState_def findRangesFromPosition_def containsPosition_def
        getResultPath_def getResultPathFrom.simps query_defs emptyDatabase_def
        idealExt_def docA_def loc_def pos_def)
  show ?thesis using declarationDump_fails c d by (intro conjI)
qed

end
